theory Spec2Isabelle
  imports Complex_Main "HOL-Library.Word"
begin

section \<open>Reaction-diffusion simulation (Main.c)\<close>

text \<open>
  A shallow embedding of \<^verbatim>\<open>Main.c\<close>. The integer macros keep their values. C \<^verbatim>\<open>int\<close>
  is modelled by \<^typ>\<open>int\<close>: every integer the program forms is an index below
  \<open>WIDTH * HEIGHT = 360000\<close>, a squared distance below \<open>2 * 300\<^sup>2\<close> or an iteration
  count up to \<open>10000\<close>, so no 32-bit operation wraps, and all operands of \<^verbatim>\<open>/\<close> and
  \<^verbatim>\<open>%\<close> are non-negative, where C and HOL division agree.
\<close>

subsection \<open>Configuration macros\<close>

definition ITERATIONS :: int where
  "ITERATIONS = 10000"

definition IterationCapture :: int where
  "IterationCapture = 200"

definition WIDTH :: int where
  "WIDTH = 600"

definition HEIGHT :: int where
  "HEIGHT = 600"

definition CENTRE_CIRCLE_RADIUS :: int where
  "CENTRE_CIRCLE_RADIUS = 20"

subsection \<open>Floating point\<close>

text \<open>
  C \<^verbatim>\<open>float\<close> is kept abstract: a type \<open>'f\<close> that only has the symbols \<open>0\<close>, \<open>1\<close>,
  \<open>+\<close>, \<open>-\<close>, \<open>*\<close> and \<open>/\<close> (the syntactic classes, without any algebraic law), so
  whatever is proved about the generic program holds for every rounding behaviour.
  The float literals of the settings macros and the two conversions the program
  uses are the fields of an environment. \<open>float_to_byte\<close> is the cast
  \<^verbatim>\<open>(byte)v\<close>; it is \<open>None\<close> where the C standard leaves the conversion undefined
  (the truncated value does not fit a byte). A comparison with zero is the
  (in)equality of HOL with the \<open>0\<close> of the type.
\<close>

record 'f fenv =
  DIFFUSION_RATE_A :: 'f
  DIFFUSION_RATE_B :: 'f
  TIME_STEP :: 'f
  ADJACENT_NEIGHBOUR_WEIGHT :: 'f
  DIAGONAL_NEIGHBOUR_WEIGHT :: 'f
  KILL_RATE_MAX :: 'f
  FEED_RATE_MAX :: 'f
  int_to_float :: "int \<Rightarrow> 'f"
  float_to_byte :: "'f \<Rightarrow> 8 word option"

subsection \<open>Data\<close>

text \<open>The struct \<^verbatim>\<open>Cell { float a, b; }\<close>; the fields are \<open>cell_a\<close> and \<open>cell_b\<close>.\<close>

record 'f Cell =
  cell_a :: 'f
  cell_b :: 'f

text \<open>
  Modelled from the spec: \<^verbatim>\<open>LibBMP.h\<close> is not part of the sources. \<open>byte\<close> is its
  unsigned 8-bit integer and \<open>Colour\<close> its (R, G, B) triple of bytes. The three
  collaborator calls the program makes are recorded as events, in the order of the
  calls: \<open>DrawPixel column row red green blue\<close>, \<open>SaveBMPFile filename width height\<close>
  and \<open>LoadBMPFile filename\<close> (the dimensions it reports are never used).
\<close>

type_synonym byte = "8 word"

record Colour =
  red :: byte
  green :: byte
  blue :: byte

datatype event =
    LoadBMPFile string
  | DrawPixel int int byte byte byte
  | SaveBMPFile string int int

definition colourA :: Colour where
  "colourA = \<lparr>red = 0, green = 0, blue = 0\<rparr>"

definition colourB :: Colour where
  "colourB = \<lparr>red = 50, green = 230, blue = 255\<rparr>"

subsection \<open>Memory\<close>

text \<open>
  The heap is a list of allocated blocks, each an array of cells; a grid pointer is
  \<open>Null\<close> or the address of a block, and \<^verbatim>\<open>&grid[i]\<close> is the pair of the pointer and
  the index. Every access through a pointer is checked: a null or unallocated
  pointer and an index outside the block are errors of the model (undefined
  behaviour of the C program), as is a float division by zero.
\<close>

datatype ptr = Null | Addr nat

datatype error = NullDereference | InvalidPointer | OutOfBounds | DivisionByZero | CastOutOfRange

record 'f state =
  heap :: "'f Cell list list"
  trace :: "event list"

definition deref :: "'f state \<Rightarrow> ptr \<Rightarrow> int \<Rightarrow> error + 'f Cell" where
  "deref s p i =
     (case p of
        Null \<Rightarrow> Inl NullDereference
      | Addr n \<Rightarrow>
          if n < length (heap s) then
            (if 0 \<le> i \<and> i < int (length (heap s ! n)) then Inr (heap s ! n ! nat i)
             else Inl OutOfBounds)
          else Inl InvalidPointer)"

definition assign :: "ptr \<Rightarrow> int \<Rightarrow> ('f Cell \<Rightarrow> 'f Cell) \<Rightarrow> 'f state \<Rightarrow> error + 'f state" where
  "assign p i f s =
     (case p of
        Null \<Rightarrow> Inl NullDereference
      | Addr n \<Rightarrow>
          if n < length (heap s) then
            (if 0 \<le> i \<and> i < int (length (heap s ! n))
             then Inr (s\<lparr>heap := (heap s)[n := (heap s ! n)[nat i := f (heap s ! n ! nat i)]]\<rparr>)
             else Inl OutOfBounds)
          else Inl InvalidPointer)"

definition assign_a :: "ptr \<Rightarrow> int \<Rightarrow> 'f \<Rightarrow> 'f state \<Rightarrow> error + 'f state" where
  "assign_a p i v = assign p i (\<lambda>c. c\<lparr>cell_a := v\<rparr>)"

definition assign_b :: "ptr \<Rightarrow> int \<Rightarrow> 'f \<Rightarrow> 'f state \<Rightarrow> error + 'f state" where
  "assign_b p i v = assign p i (\<lambda>c. c\<lparr>cell_b := v\<rparr>)"

definition emit :: "event \<Rightarrow> 'f state \<Rightarrow> 'f state" where
  "emit e s = s\<lparr>trace := trace s @ [e]\<rparr>"

definition fdiv :: "'f::{zero,inverse} \<Rightarrow> 'f \<Rightarrow> error + 'f" where
  "fdiv u v = (if v = 0 then Inl DivisionByZero else Inr (u / v))"

subsection \<open>Counting loops\<close>

text \<open>
  \<^verbatim>\<open>for (i = lo; i < n; i++) body\<close>, threading the loop's state and stopping at the
  first error. The loops \<^verbatim>\<open>for (x = -1; x <= 1; x++)\<close> use the bound \<open>1 + 1\<close>.
\<close>

function forLoop :: "int \<Rightarrow> int \<Rightarrow> (int \<Rightarrow> 's \<Rightarrow> 'e + 's) \<Rightarrow> 's \<Rightarrow> 'e + 's" where
  "forLoop i n body s =
     (if i < n then
        (case body i s of Inl e \<Rightarrow> Inl e | Inr s' \<Rightarrow> forLoop (i + 1) n body s')
      else Inr s)"
  by pat_completeness auto
termination
  by (relation "measure (\<lambda>(i, n, body, s). nat (n - i))") auto

subsection \<open>The grid engine\<close>

definition getKillRate :: "'f fenv \<Rightarrow> int \<Rightarrow> int \<Rightarrow> 'f" where
  "getKillRate F x y = KILL_RATE_MAX F"

definition getFeedRate :: "'f fenv \<Rightarrow> int \<Rightarrow> int \<Rightarrow> 'f" where
  "getFeedRate F x y = FEED_RATE_MAX F"

definition isWithinGrid :: "int \<Rightarrow> int \<Rightarrow> bool" where
  "isWithinGrid x y \<longleftrightarrow> x \<ge> 0 \<and> x < WIDTH \<and> y \<ge> 0 \<and> y < HEIGHT"

definition xyToIndex :: "int \<Rightarrow> int \<Rightarrow> int" where
  "xyToIndex x y = x + y * WIDTH"

definition calculateDifferenceBetweenCellAndNeighbours ::
  "('f::{zero,plus,minus,times}) fenv \<Rightarrow> ptr \<Rightarrow> ptr \<times> int \<Rightarrow> int \<Rightarrow> int \<Rightarrow> 'f state
     \<Rightarrow> error + 'f Cell" where
  "calculateDifferenceBetweenCellAndNeighbours F currentGrid cell xPos yPos s =
     forLoop (- 1) (1 + 1) (\<lambda>x.
       forLoop (- 1) (1 + 1) (\<lambda>y difference.
         if x = 0 \<and> y = 0 then
           (case deref s (fst cell) (snd cell) of
              Inl e \<Rightarrow> Inl e
            | Inr c \<Rightarrow>
                Inr \<lparr>cell_a = cell_a difference - cell_a c,
                     cell_b = cell_b difference - cell_b c\<rparr>)
         else
           (let gridX = xPos + x; gridY = yPos + y in
            if isWithinGrid gridX gridY then
              (case deref s currentGrid (xyToIndex gridX gridY) of
                 Inl e \<Rightarrow> Inl e
               | Inr gridCell \<Rightarrow>
                   (let weight = (if x = 0 \<or> y = 0 then ADJACENT_NEIGHBOUR_WEIGHT F
                                  else DIAGONAL_NEIGHBOUR_WEIGHT F)
                    in Inr \<lparr>cell_a = cell_a difference + weight * cell_a gridCell,
                            cell_b = cell_b difference + weight * cell_b gridCell\<rparr>))
            else Inr difference)))
       \<lparr>cell_a = 0, cell_b = 0\<rparr>"

text \<open>
  \<open>calculateNewValue\<close> reads the cell through its pointer each time the C statement
  does: the second assignment reads \<^verbatim>\<open>cell->b\<close> after \<^verbatim>\<open>newValue->a\<close> has been stored.
\<close>

definition calculateNewValue ::
  "('f::{zero,one,plus,minus,times}) fenv \<Rightarrow> ptr \<Rightarrow> ptr \<times> int \<Rightarrow> int \<Rightarrow> int \<Rightarrow> 'f state
     \<Rightarrow> error + 'f state" where
  "calculateNewValue F currentGrid newValue x y s =
     (let cell = (currentGrid, xyToIndex x y) in
      case calculateDifferenceBetweenCellAndNeighbours F currentGrid cell x y s of
        Inl e \<Rightarrow> Inl e
      | Inr difference \<Rightarrow>
     (case deref s (fst cell) (snd cell) of
        Inl e \<Rightarrow> Inl e
      | Inr c \<Rightarrow>
     (let reaction = cell_a c * cell_b c * cell_b c;
          feedRate = getFeedRate F x y;
          killRate = getKillRate F x y
      in
      case assign_a (fst newValue) (snd newValue)
             (cell_a c + (DIFFUSION_RATE_A F * cell_a difference - reaction
                            + feedRate * (1 - cell_a c)) * TIME_STEP F) s of
        Inl e \<Rightarrow> Inl e
      | Inr s1 \<Rightarrow>
     (case deref s1 (fst cell) (snd cell) of
        Inl e \<Rightarrow> Inl e
      | Inr c1 \<Rightarrow>
          assign_b (fst newValue) (snd newValue)
            (cell_b c1 + (DIFFUSION_RATE_B F * cell_b difference + reaction
                            - (killRate + feedRate) * cell_b c1) * TIME_STEP F) s1))))"

definition updateGrid ::
  "('f::{zero,one,plus,minus,times}) fenv \<Rightarrow> ptr \<Rightarrow> ptr \<Rightarrow> 'f state \<Rightarrow> error + 'f state" where
  "updateGrid F currentGrid newGrid =
     forLoop 0 WIDTH (\<lambda>x.
       forLoop 0 HEIGHT (\<lambda>y.
         calculateNewValue F currentGrid (newGrid, xyToIndex x y) x y))"

definition square :: "int \<Rightarrow> int" where
  "square x = x * x"

definition withinDistanceOfCentre :: "int \<Rightarrow> int \<Rightarrow> int \<Rightarrow> bool" where
  "withinDistanceOfCentre x y distance \<longleftrightarrow>
     square (x - WIDTH div 2) + square (y - HEIGHT div 2) < square distance"

definition seedGrid :: "ptr \<Rightarrow> ('f::{zero,one}) state \<Rightarrow> error + 'f state" where
  "seedGrid currentGrid =
     forLoop 0 WIDTH (\<lambda>x.
       forLoop 0 HEIGHT (\<lambda>y s.
         let index = xyToIndex x y in
         if withinDistanceOfCentre x y CENTRE_CIRCLE_RADIUS then
           (case assign_a currentGrid index 0 s of
              Inl e \<Rightarrow> Inl e
            | Inr s1 \<Rightarrow> assign_b currentGrid index 1 s1)
         else
           (case assign_a currentGrid index 1 s of
              Inl e \<Rightarrow> Inl e
            | Inr s1 \<Rightarrow> assign_b currentGrid index 0 s1)))"

subsection \<open>The renderer\<close>

text \<open>
  In \<open>lerp\<close> the byte operands are promoted to \<^verbatim>\<open>int\<close>, the difference is converted to
  float for the product, the product is cast to a byte, and the \<^verbatim>\<open>int\<close> sum is
  converted back to a byte (modulo 256) when it initialises the field. The three
  initialisers of \<open>lerp\<close> are the same expression on the three channels,
  \<open>lerp_channel\<close>.
\<close>

definition lerp_channel :: "('f::times) fenv \<Rightarrow> byte \<Rightarrow> byte \<Rightarrow> 'f \<Rightarrow> error + byte" where
  "lerp_channel F ca cb t =
     (case float_to_byte F (int_to_float F (uint cb - uint ca) * t) of
        None \<Rightarrow> Inl CastOutOfRange
      | Some d \<Rightarrow> Inr (word_of_int (uint ca + uint d)))"

definition lerp :: "('f::times) fenv \<Rightarrow> Colour \<Rightarrow> Colour \<Rightarrow> 'f \<Rightarrow> error + Colour" where
  "lerp F ca cb t =
     (case lerp_channel F (red ca) (red cb) t of
        Inl e \<Rightarrow> Inl e
      | Inr r \<Rightarrow>
     (case lerp_channel F (green ca) (green cb) t of
        Inl e \<Rightarrow> Inl e
      | Inr g \<Rightarrow>
     (case lerp_channel F (blue ca) (blue cb) t of
        Inl e \<Rightarrow> Inl e
      | Inr bl \<Rightarrow> Inr \<lparr>red = r, green = g, blue = bl\<rparr>)))"

text \<open>\<^verbatim>\<open>sprintf(iterationStr, "%d", iteration)\<close>: the decimal digits, with a sign.\<close>

fun digits :: "nat \<Rightarrow> string" where
  "digits n =
     (if n < 10 then [''0123456789'' ! n]
      else digits (n div 10) @ [''0123456789'' ! (n mod 10)])"

definition sprintf_d :: "int \<Rightarrow> string" where
  "sprintf_d i = (if i < 0 then CHR ''-'' # digits (nat (- i)) else digits (nat i))"

definition saveSimulation ::
  "('f::{zero,plus,times,inverse}) fenv \<Rightarrow> ptr \<Rightarrow> int \<Rightarrow> 'f state \<Rightarrow> error + 'f state" where
  "saveSimulation F currentGrid iteration s =
     (case forLoop 0 WIDTH (\<lambda>x.
             forLoop 0 HEIGHT (\<lambda>y s.
               case deref s currentGrid (xyToIndex x y) of
                 Inl e \<Rightarrow> Inl e
               | Inr cell \<Rightarrow>
                   (let denominator = cell_b cell + cell_a cell in
                    if denominator \<noteq> 0 then
                      (case fdiv (cell_b cell) denominator of
                         Inl e \<Rightarrow> Inl e
                       | Inr t \<Rightarrow>
                      (case lerp F colourA colourB t of
                         Inl e \<Rightarrow> Inl e
                       | Inr pixelColour \<Rightarrow>
                           Inr (emit (DrawPixel y x (red pixelColour) (green pixelColour)
                                        (blue pixelColour)) s)))
                    else Inr s))) s of
        Inl e \<Rightarrow> Inl e
      | Inr s1 \<Rightarrow>
          (let filename = ''Output'';
               iterationStr = sprintf_d iteration;
               filename = filename @ iterationStr;
               filename = filename @ ''.bmp''
           in Inr (emit (SaveBMPFile filename WIDTH HEIGHT) s1)))"

subsection \<open>The driver\<close>

text \<open>
  \<^verbatim>\<open>malloc\<close> may fail. The argument of \<open>createGrid\<close> is the allocator's answer: \<open>None\<close>
  when it returns the null pointer, otherwise the indeterminate initial contents of
  the new block of \<open>WIDTH * HEIGHT\<close> cells. The file-scope counter \<^verbatim>\<open>iteration\<close> is
  only used as the loop variable of \<open>startSimulation\<close>.
\<close>

definition createGrid :: "(nat \<Rightarrow> 'f Cell) option \<Rightarrow> 'f state \<Rightarrow> ptr \<times> 'f state" where
  "createGrid m s =
     (case m of
        None \<Rightarrow> (Null, s)
      | Some init \<Rightarrow>
          (Addr (length (heap s)),
           s\<lparr>heap := heap s @ [map init [0..<nat (WIDTH * HEIGHT)]]\<rparr>))"

text \<open>
  The loop of \<open>startSimulation\<close>. Its bound \<^verbatim>\<open>ITERATIONS\<close> is a parameter here, so that
  the state after any number of iterations can be stated.
\<close>

definition simulationLoop ::
  "('f::{zero,one,plus,minus,times,inverse}) fenv \<Rightarrow> ptr \<Rightarrow> ptr \<Rightarrow> int \<Rightarrow> 'f state
     \<Rightarrow> error + 'f state" where
  "simulationLoop F currentGrid newGrid n =
     forLoop 0 n (\<lambda>iteration s.
       if iteration mod 2 = 0 then
         (case updateGrid F currentGrid newGrid s of
            Inl e \<Rightarrow> Inl e
          | Inr s' \<Rightarrow>
              if iteration mod IterationCapture = 0
              then saveSimulation F currentGrid iteration s'
              else Inr s')
       else
         (case updateGrid F newGrid currentGrid s of
            Inl e \<Rightarrow> Inl e
          | Inr s' \<Rightarrow>
              if iteration mod IterationCapture = 0
              then saveSimulation F newGrid iteration s'
              else Inr s'))"

definition startSimulation ::
  "('f::{zero,one,plus,minus,times,inverse}) fenv \<Rightarrow> (nat \<Rightarrow> 'f Cell) option
     \<Rightarrow> (nat \<Rightarrow> 'f Cell) option \<Rightarrow> 'f state \<Rightarrow> error + 'f state" where
  "startSimulation F m1 m2 s0 =
     (let (currentGrid, s1) = createGrid m1 s0;
          (newGrid, s2) = createGrid m2 s1
      in
      case seedGrid currentGrid (emit (LoadBMPFile ''blank.bmp'') s2) of
        Inl e \<Rightarrow> Inl e
      | Inr s3 \<Rightarrow>
     (case simulationLoop F currentGrid newGrid ITERATIONS s3 of
        Inl e \<Rightarrow> Inl e
      | Inr s4 \<Rightarrow>
          saveSimulation F (if ITERATIONS mod 2 = 0 then currentGrid else newGrid)
            ITERATIONS s4))"

section \<open>Vocabulary of the properties\<close>

subsection \<open>Allocated grids\<close>

text \<open>
  \<open>isGrid s n\<close>: block \<open>n\<close> of the heap is allocated and has \<open>WIDTH * HEIGHT\<close> cells, as
  \<open>createGrid\<close> allocates it. \<open>store\<close> is the state after one cell of a block has been
  replaced, \<open>frame s n t\<close> says that \<open>t\<close> differs from \<open>s\<close> at most in the contents of
  block \<open>n\<close>, and \<open>filled s n v\<close> is \<open>s\<close> with cell \<open>(x, y)\<close> of block \<open>n\<close> set to \<open>v x y\<close>
  for every position of the grid.
\<close>

definition isGrid :: "'f state \<Rightarrow> nat \<Rightarrow> bool" where
  "isGrid s n \<longleftrightarrow> n < length (heap s) \<and> length (heap s ! n) = nat (WIDTH * HEIGHT)"

definition store :: "nat \<Rightarrow> int \<Rightarrow> 'f Cell \<Rightarrow> 'f state \<Rightarrow> 'f state" where
  "store n i v t = t\<lparr>heap := (heap t)[n := (heap t ! n)[nat i := v]]\<rparr>"

definition frame :: "'f state \<Rightarrow> nat \<Rightarrow> 'f state \<Rightarrow> bool" where
  "frame s n t \<longleftrightarrow>
     trace t = trace s \<and> length (heap t) = length (heap s) \<and>
     (\<forall>m. m \<noteq> n \<longrightarrow> heap t ! m = heap s ! m) \<and>
     length (heap t ! n) = length (heap s ! n)"

definition filled :: "'f state \<Rightarrow> nat \<Rightarrow> (int \<Rightarrow> int \<Rightarrow> 'f Cell) \<Rightarrow> 'f state" where
  "filled s n v =
     s\<lparr>heap := (heap s)[n := map (\<lambda>k. v (int k mod WIDTH) (int k div WIDTH)) [0..<nat (WIDTH * HEIGHT)]]\<rparr>"

subsection \<open>Seeding, as the specification words it\<close>

text \<open>
  The Euclidean distance from a cell to the centre \<open>(WIDTH / 2, HEIGHT / 2)\<close>, the
  seeded value of a cell, and the seeded grid.
\<close>

definition distanceToCentre :: "int \<Rightarrow> int \<Rightarrow> real" where
  "distanceToCentre x y = sqrt (real_of_int ((x - WIDTH div 2)\<^sup>2 + (y - HEIGHT div 2)\<^sup>2))"

definition seedCell :: "int \<Rightarrow> int \<Rightarrow> ('f::{zero,one}) Cell" where
  "seedCell x y =
     (if distanceToCentre x y < real_of_int CENTRE_CIRCLE_RADIUS
      then \<lparr>cell_a = 0, cell_b = 1\<rparr> else \<lparr>cell_a = 1, cell_b = 0\<rparr>)"

definition seeded :: "('f::{zero,one}) Cell list" where
  "seeded = map (\<lambda>k. seedCell (int k mod WIDTH) (int k div WIDTH)) [0..<nat (WIDTH * HEIGHT)]"

subsection \<open>The neighbour term, as the specification words it\<close>

text \<open>
  The 3x3 neighbourhood of \<open>(x, y)\<close> in the scan order of the code (\<open>x\<close> outer, \<open>y\<close>
  inner). A position contributes when it is the cell itself or lies in the grid. The
  cell itself subtracts its own pair; a neighbour in the same row or column adds its
  pair scaled by the adjacent weight, any other neighbour by the diagonal weight.
  Float addition is not associative, so the sum is the fold in scan order.
  \<open>neighbours\<close> are the contributing positions other than the cell, and
  \<open>onBorder v n\<close> says that the coordinate \<open>v\<close> is the first or the last of \<open>n\<close>.
\<close>

definition neighbourhood :: "int \<Rightarrow> int \<Rightarrow> (int \<times> int) list" where
  "neighbourhood x y = [(x + dx, y + dy). dx \<leftarrow> [- 1, 0, 1], dy \<leftarrow> [- 1, 0, 1]]"

definition contributes :: "int \<Rightarrow> int \<Rightarrow> int \<times> int \<Rightarrow> bool" where
  "contributes x y p \<longleftrightarrow> p = (x, y) \<or> isWithinGrid (fst p) (snd p)"

definition addTerm ::
  "('f::{plus,minus,times}) fenv \<Rightarrow> 'f Cell list \<Rightarrow> int \<Rightarrow> int \<Rightarrow> 'f Cell \<Rightarrow> int \<times> int \<Rightarrow> 'f Cell" where
  "addTerm F cs x y d p =
     (if p = (x, y) then
        \<lparr>cell_a = cell_a d - cell_a (cs ! nat (xyToIndex x y)),
         cell_b = cell_b d - cell_b (cs ! nat (xyToIndex x y))\<rparr>
      else
        (let w = (if fst p = x \<or> snd p = y then ADJACENT_NEIGHBOUR_WEIGHT F
                  else DIAGONAL_NEIGHBOUR_WEIGHT F);
             c = cs ! nat (xyToIndex (fst p) (snd p))
         in \<lparr>cell_a = cell_a d + w * cell_a c, cell_b = cell_b d + w * cell_b c\<rparr>))"

definition neighbourDifference ::
  "('f::{zero,plus,minus,times}) fenv \<Rightarrow> 'f Cell list \<Rightarrow> int \<Rightarrow> int \<Rightarrow> 'f Cell" where
  "neighbourDifference F cs x y =
     foldl (addTerm F cs x y) \<lparr>cell_a = 0, cell_b = 0\<rparr> (filter (contributes x y) (neighbourhood x y))"

definition neighbours :: "int \<Rightarrow> int \<Rightarrow> (int \<times> int) list" where
  "neighbours x y = filter (\<lambda>p. p \<noteq> (x, y) \<and> isWithinGrid (fst p) (snd p)) (neighbourhood x y)"

definition onBorder :: "int \<Rightarrow> int \<Rightarrow> bool" where
  "onBorder v n \<longleftrightarrow> v = 0 \<or> v = n - 1"

subsection \<open>One step, as the specification words it\<close>

text \<open>
  The forward-Euler update of one cell from the cells \<open>cs\<close> of the current buffer, the
  next buffer as a function of the current one, and the grid after \<open>n\<close> steps from the
  seeded grid.
\<close>

definition newCell ::
  "('f::{zero,one,plus,minus,times}) fenv \<Rightarrow> 'f Cell list \<Rightarrow> int \<Rightarrow> int \<Rightarrow> 'f Cell" where
  "newCell F cs x y =
     (let diff = neighbourDifference F cs x y;
          A = cell_a (cs ! nat (xyToIndex x y));
          B = cell_b (cs ! nat (xyToIndex x y));
          reaction = A * B * B;
          f = getFeedRate F x y;
          k = getKillRate F x y
      in \<lparr>cell_a = A + (DIFFUSION_RATE_A F * cell_a diff - reaction + f * (1 - A)) * TIME_STEP F,
          cell_b = B + (DIFFUSION_RATE_B F * cell_b diff + reaction - (k + f) * B) * TIME_STEP F\<rparr>)"

definition advance ::
  "('f::{zero,one,plus,minus,times}) fenv \<Rightarrow> 'f Cell list \<Rightarrow> 'f Cell list" where
  "advance F cs =
     map (\<lambda>k. newCell F cs (int k mod WIDTH) (int k div WIDTH)) [0..<nat (WIDTH * HEIGHT)]"

definition generation :: "('f::{zero,one,plus,minus,times}) fenv \<Rightarrow> nat \<Rightarrow> 'f Cell list" where
  "generation F n = (advance F ^^ n) seeded"

subsection \<open>Rendering as a function of the cells\<close>

text \<open>
  \<open>collect\<close> runs a list of event producers in order and stops at the first error.
  \<open>pixelCall\<close> is what one cell contributes: nothing when \<open>b + a = 0\<close>, otherwise the
  draw call with the interpolated colour. \<open>render\<close> is the draw calls of a grid in
  scan order, \<open>rendered\<close> the positions that are drawn, \<open>outputName\<close> the file name
  of iteration \<open>i\<close>, and \<open>snapshot\<close> the events of one call of \<open>saveSimulation\<close>.
  \<open>castTotal\<close> says that the byte cast is defined on every float.
\<close>

fun collect :: "('p \<Rightarrow> error + event list) \<Rightarrow> 'p list \<Rightarrow> error + event list" where
  "collect f [] = Inr []"
| "collect f (p # ps) =
     (case f p of
        Inl e \<Rightarrow> Inl e
      | Inr evs \<Rightarrow> (case collect f ps of Inl e \<Rightarrow> Inl e | Inr rest \<Rightarrow> Inr (evs @ rest)))"

definition scanOrder :: "(int \<times> int) list" where
  "scanOrder = [(x, y). x \<leftarrow> [0..WIDTH - 1], y \<leftarrow> [0..HEIGHT - 1]]"

definition pixelCall ::
  "('f::{zero,plus,times,inverse}) fenv \<Rightarrow> 'f Cell \<Rightarrow> int \<times> int \<Rightarrow> error + event list" where
  "pixelCall F c p =
     (if cell_b c + cell_a c = 0 then Inr []
      else
        (case lerp F colourA colourB (cell_b c / (cell_b c + cell_a c)) of
           Inl e \<Rightarrow> Inl e
         | Inr col \<Rightarrow> Inr [DrawPixel (snd p) (fst p) (red col) (green col) (blue col)]))"

definition render :: "('f::{zero,plus,times,inverse}) fenv \<Rightarrow> 'f Cell list \<Rightarrow> error + event list" where
  "render F cs = collect (\<lambda>p. pixelCall F (cs ! nat (xyToIndex (fst p) (snd p))) p) scanOrder"

definition rendered :: "('f::{zero,plus}) Cell list \<Rightarrow> (int \<times> int) list" where
  "rendered cs =
     filter (\<lambda>p. cell_b (cs ! nat (xyToIndex (fst p) (snd p)))
                   + cell_a (cs ! nat (xyToIndex (fst p) (snd p))) \<noteq> 0) scanOrder"

definition outputName :: "int \<Rightarrow> string" where
  "outputName i = ''Output'' @ sprintf_d i @ ''.bmp''"

definition snapshot ::
  "('f::{zero,plus,times,inverse}) fenv \<Rightarrow> 'f Cell list \<Rightarrow> int \<Rightarrow> error + event list" where
  "snapshot F cs k =
     (case render F cs of
        Inl e \<Rightarrow> Inl e
      | Inr draws \<Rightarrow> Inr (draws @ [SaveBMPFile (outputName k) WIDTH HEIGHT]))"

definition castTotal :: "'f fenv \<Rightarrow> bool" where
  "castTotal F \<longleftrightarrow> (\<forall>v. float_to_byte F v \<noteq> None)"

subsection \<open>File names\<close>

text \<open>
  What it means for a string to be the decimal numeral of an integer, stated without
  reference to the program: \<open>decimalValue\<close> reads a string of digits as a number in
  base ten, most significant digit first; \<open>canonicalDecimal ds n\<close> says that \<open>ds\<close> is a
  non-empty string of the characters \<open>0\<close> to \<open>9\<close> denoting \<open>n\<close>, with no leading zero
  unless it is the string \<open>0\<close> itself; \<open>isDecimalOf str k\<close> allows for the minus sign of
  a negative \<open>k\<close>.
\<close>

definition isDigit :: "char \<Rightarrow> bool" where
  "isDigit c \<longleftrightarrow> (48 :: nat) \<le> of_char c \<and> of_char c \<le> (57 :: nat)"

definition digitValue :: "char \<Rightarrow> nat" where
  "digitValue c = of_char c - 48"

definition decimalValue :: "string \<Rightarrow> nat" where
  "decimalValue ds = foldl (\<lambda>n c. 10 * n + digitValue c) 0 ds"

definition canonicalDecimal :: "string \<Rightarrow> nat \<Rightarrow> bool" where
  "canonicalDecimal ds n \<longleftrightarrow>
     ds \<noteq> [] \<and> list_all isDigit ds \<and> (hd ds = CHR ''0'' \<longrightarrow> ds = ''0'') \<and> decimalValue ds = n"

definition isDecimalOf :: "string \<Rightarrow> int \<Rightarrow> bool" where
  "isDecimalOf str k \<longleftrightarrow>
     (if k < 0 then str \<noteq> [] \<and> hd str = CHR ''-'' \<and> canonicalDecimal (tl str) (nat (- k))
      else canonicalDecimal str (nat k))"

subsection \<open>The driver\<close>

text \<open>
  The iterations that are captured below \<open>n\<close>, and the two buffers (\<open>currentGrid\<close>
  first) after \<open>n\<close> iterations of the loop; before the first iteration \<open>newGrid\<close> holds
  whatever the allocator left there.
\<close>

definition captures :: "int \<Rightarrow> int list" where
  "captures n = filter (\<lambda>k. k mod IterationCapture = 0) [0..n - 1]"

definition buffers ::
  "('f::{zero,one,plus,minus,times}) fenv \<Rightarrow> (nat \<Rightarrow> 'f Cell) \<Rightarrow> nat \<Rightarrow> 'f Cell list list" where
  "buffers F junk n =
     (if n = 0 then [seeded, map junk [0..<nat (WIDTH * HEIGHT)]]
      else if even n then [generation F n, generation F (n - 1)]
      else [generation F (n - 1), generation F n])"

subsection \<open>Single-precision floats\<close>

text \<open>
  The type of the C \<^verbatim>\<open>float\<close> of the platforms the program is built for: IEEE 754
  binary32 with round to nearest, ties to even, gradual underflow, the two infinities
  and NaN. A finite float is given by its value, a rational; the two zeros are
  identified, which this program cannot observe (it never divides by a zero, since a
  denominator is tested first). \<open>fl q\<close> is the float nearest to \<open>q\<close>: \<open>exponent q\<close> is the
  binary exponent of \<open>q\<close>, at least \<open>-126\<close>, found by halving or doubling \<open>\<bar>q\<bar>\<close>, the
  spacing of the floats around \<open>q\<close> is \<open>2\<close> to the \<open>exponent q - 23\<close>, and a result of
  magnitude \<open>2\<^sup>1\<^sup>2\<^sup>8\<close> or more is an infinity. Every operation is the exact operation
  followed by \<open>fl\<close>: each operation of the program is evaluated in single precision
  and rounded on its own, as a compiler does that evaluates \<^verbatim>\<open>float\<close> expressions in
  their own type and does not fuse a product with a sum.
\<close>

datatype float32 = Finite rat | PInf | NInf | NaN

definition rne :: "rat \<Rightarrow> int" where
  "rne x =
     (let f = \<lfloor>x\<rfloor>; r = x - of_int f in
      if r < 1 / 2 then f else if 1 / 2 < r then f + 1 else if even f then f else f + 1)"

fun halvings :: "nat \<Rightarrow> rat \<Rightarrow> nat" where
  "halvings 0 q = 0"
| "halvings (Suc n) q = (if 2 \<le> q then Suc (halvings n (q / 2)) else 0)"

fun doublings :: "nat \<Rightarrow> rat \<Rightarrow> nat" where
  "doublings 0 q = 0"
| "doublings (Suc n) q = (if q < 1 then Suc (doublings n (q * 2)) else 0)"

definition exponent :: "rat \<Rightarrow> int" where
  "exponent q = (if 1 \<le> \<bar>q\<bar> then int (halvings 128 \<bar>q\<bar>) else - int (doublings 126 \<bar>q\<bar>))"

definition fl :: "rat \<Rightarrow> float32" where
  "fl q =
     (let u = 2 powi (exponent q - 23); v = of_int (rne (q / u)) * u in
      if 2 ^ 128 \<le> v then PInf else if v \<le> - (2 ^ 128) then NInf else Finite v)"

fun add32 :: "float32 \<Rightarrow> float32 \<Rightarrow> float32" where
  "add32 (Finite x) (Finite y) = fl (x + y)"
| "add32 NaN y = NaN"
| "add32 x NaN = NaN"
| "add32 PInf NInf = NaN"
| "add32 NInf PInf = NaN"
| "add32 PInf y = PInf"
| "add32 x PInf = PInf"
| "add32 NInf y = NInf"
| "add32 x NInf = NInf"

fun neg32 :: "float32 \<Rightarrow> float32" where
  "neg32 (Finite x) = Finite (- x)"
| "neg32 PInf = NInf"
| "neg32 NInf = PInf"
| "neg32 NaN = NaN"

text \<open>An infinity of the given sign times a float.\<close>

fun scale_inf :: "bool \<Rightarrow> float32 \<Rightarrow> float32" where
  "scale_inf pos (Finite x) = (if x = 0 then NaN else if (0 < x) = pos then PInf else NInf)"
| "scale_inf pos PInf = (if pos then PInf else NInf)"
| "scale_inf pos NInf = (if pos then NInf else PInf)"
| "scale_inf pos NaN = NaN"

fun mul32 :: "float32 \<Rightarrow> float32 \<Rightarrow> float32" where
  "mul32 (Finite x) (Finite y) = fl (x * y)"
| "mul32 PInf y = scale_inf True y"
| "mul32 NInf y = scale_inf False y"
| "mul32 x PInf = scale_inf True x"
| "mul32 x NInf = scale_inf False x"
| "mul32 NaN y = NaN"
| "mul32 x NaN = NaN"

fun div32 :: "float32 \<Rightarrow> float32 \<Rightarrow> float32" where
  "div32 (Finite x) (Finite y) =
     (if y = 0 then (if x = 0 then NaN else if 0 < x then PInf else NInf) else fl (x / y))"
| "div32 NaN y = NaN"
| "div32 x NaN = NaN"
| "div32 (Finite x) y = Finite 0"
| "div32 PInf (Finite y) = (if 0 \<le> y then PInf else NInf)"
| "div32 NInf (Finite y) = (if 0 \<le> y then NInf else PInf)"
| "div32 x y = NaN"

instantiation float32 :: "{zero,one,plus,minus,times,inverse}"
begin

definition zero_float32 :: float32 where
  "zero_float32 = Finite 0"

definition one_float32 :: float32 where
  "one_float32 = Finite 1"

definition plus_float32 :: "float32 \<Rightarrow> float32 \<Rightarrow> float32" where
  "plus_float32 = add32"

definition minus_float32 :: "float32 \<Rightarrow> float32 \<Rightarrow> float32" where
  "minus_float32 x y = add32 x (neg32 y)"

definition times_float32 :: "float32 \<Rightarrow> float32 \<Rightarrow> float32" where
  "times_float32 = mul32"

definition divide_float32 :: "float32 \<Rightarrow> float32 \<Rightarrow> float32" where
  "divide_float32 = div32"

definition inverse_float32 :: "float32 \<Rightarrow> float32" where
  "inverse_float32 x = div32 (Finite 1) x"

instance ..

end

text \<open>
  The cast \<^verbatim>\<open>(byte)v\<close> truncates towards zero. \<open>cast_byte\<close> is the cast of the C
  standard, undefined when the truncated value is not a byte; \<open>cast_byte_wrap\<close> is the
  cast of an implementation that converts to a machine integer and keeps its low
  eight bits.
\<close>

definition toward_zero :: "rat \<Rightarrow> int" where
  "toward_zero v = (if 0 \<le> v then \<lfloor>v\<rfloor> else \<lceil>v\<rceil>)"

fun cast_byte :: "float32 \<Rightarrow> byte option" where
  "cast_byte (Finite v) = (if - 1 < v \<and> v < 256 then Some (word_of_int (toward_zero v)) else None)"
| "cast_byte x = None"

fun cast_byte_wrap :: "float32 \<Rightarrow> byte option" where
  "cast_byte_wrap (Finite v) = Some (word_of_int (toward_zero v))"
| "cast_byte_wrap x = Some 0"

subsection \<open>Concrete instances\<close>

text \<open>
  \<open>binary32\<close> is the environment of the program: the float literals of the settings
  macros rounded to single precision, the conversion of an \<^verbatim>\<open>int\<close> and the cast of the
  C standard. \<open>binary32_wrap\<close> differs in the cast only, which wraps modulo 256 instead
  of being undefined. The states hold grids of constant cells: \<open>testGrids\<close> a grid of
  \<open>(1/2, 1/4)\<close> and one of \<open>(9, 9)\<close>, \<open>blankGrid\<close> a grid of \<open>(0, 0)\<close>, \<open>oddGrid\<close> a grid
  of \<open>(257, -1)\<close>; \<open>emptyState\<close> has nothing allocated, and \<open>zeroCells\<close> is an
  allocator answer.
\<close>

definition binary32 :: "float32 fenv" where
  "binary32 =
     \<lparr>DIFFUSION_RATE_A = fl 1.0, DIFFUSION_RATE_B = fl 0.5, TIME_STEP = fl 1.0,
      ADJACENT_NEIGHBOUR_WEIGHT = fl 0.2, DIAGONAL_NEIGHBOUR_WEIGHT = fl 0.05,
      KILL_RATE_MAX = fl 0.062, FEED_RATE_MAX = fl 0.0545,
      int_to_float = (\<lambda>k. fl (of_int k)),
      float_to_byte = cast_byte\<rparr>"

definition binary32_wrap :: "float32 fenv" where
  "binary32_wrap = binary32\<lparr>float_to_byte := cast_byte_wrap\<rparr>"

definition testGrids :: "float32 state" where
  "testGrids =
     \<lparr>heap = [replicate (nat (WIDTH * HEIGHT)) \<lparr>cell_a = Finite (1 / 2), cell_b = Finite (1 / 4)\<rparr>,
              replicate (nat (WIDTH * HEIGHT)) \<lparr>cell_a = Finite 9, cell_b = Finite 9\<rparr>],
      trace = []\<rparr>"

definition blankGrid :: "float32 state" where
  "blankGrid =
     \<lparr>heap = [replicate (nat (WIDTH * HEIGHT)) \<lparr>cell_a = Finite 0, cell_b = Finite 0\<rparr>], trace = []\<rparr>"

definition oddGrid :: "float32 state" where
  "oddGrid =
     \<lparr>heap = [replicate (nat (WIDTH * HEIGHT)) \<lparr>cell_a = Finite 257, cell_b = Finite (- 1)\<rparr>],
      trace = []\<rparr>"

definition emptyState :: "float32 state" where
  "emptyState = \<lparr>heap = [], trace = []\<rparr>"

definition zeroCells :: "nat \<Rightarrow> float32 Cell" where
  "zeroCells k = \<lparr>cell_a = Finite 0, cell_b = Finite 0\<rparr>"


section \<open>Properties\<close>

subsection \<open>Single precision\<close>

text \<open>
  The settings macros as floats (the bit patterns \<^verbatim>\<open>3E4CCCCD\<close>, \<^verbatim>\<open>3D4CCCCD\<close>,
  \<^verbatim>\<open>3D7DF3B6\<close> and \<^verbatim>\<open>3D5F3B64\<close>), and the rounding of a number between 0 and 255.
\<close>

lemma binary32_literals:
  "ADJACENT_NEIGHBOUR_WEIGHT binary32 = Finite (13421773 / 67108864)"
  "DIAGONAL_NEIGHBOUR_WEIGHT binary32 = Finite (13421773 / 268435456)"
  "KILL_RATE_MAX binary32 = Finite (8321499 / 134217728)"
  "FEED_RATE_MAX binary32 = Finite (3657433 / 67108864)"
  "DIFFUSION_RATE_A binary32 = Finite 1"
  "DIFFUSION_RATE_B binary32 = Finite (1 / 2)"
  "TIME_STEP binary32 = Finite 1"
  by code_simp+





subsection \<open>Loops\<close>

text \<open>
  A Hoare-style rule for the counting loop: an invariant that every iteration
  re-establishes holds at the exit, and an error of the loop satisfies what every
  error of the body satisfies.
\<close>

declare forLoop.simps [simp del]

lemma forLoop_rule:
  assumes "i \<le> n" and "Inv i s"
    and step: "\<And>j t. i \<le> j \<Longrightarrow> j < n \<Longrightarrow> Inv j t \<Longrightarrow>
                 (case body j t of Inl e \<Rightarrow> Q e | Inr t' \<Rightarrow> Inv (j + 1) t')"
  shows "case forLoop i n body s of Inl e \<Rightarrow> Q e | Inr s' \<Rightarrow> Inv n s'"
  using assms
proof (induction i n body s rule: forLoop.induct)
  case (1 i n body s)
  show ?case
  proof (cases "i < n")
    case True
    have b: "case body i s of Inl e \<Rightarrow> Q e | Inr t' \<Rightarrow> Inv (i + 1) t'"
      using "1.prems"(3)[of i s] True "1.prems"(2) by simp
    show ?thesis
    proof (cases "body i s")
      case (Inl e)
      with b True show ?thesis by (simp add: forLoop.simps[of i])
    next
      case (Inr t')
      with b have inv': "Inv (i + 1) t'" by simp
      have "case forLoop (i + 1) n body t' of Inl e \<Rightarrow> Q e | Inr s' \<Rightarrow> Inv n s'"
      proof (rule "1.IH"[OF True Inr _ inv'])
        show "i + 1 \<le> n" using True by simp
      next
        fix j t assume "i + 1 \<le> j" "j < n" "Inv j t"
        then show "case body j t of Inl e \<Rightarrow> Q e | Inr t' \<Rightarrow> Inv (j + 1) t'"
          using "1.prems"(3)[of j t] by simp
      qed
      with Inr True show ?thesis by (simp add: forLoop.simps[of i])
    qed
  next
    case False
    with "1.prems" have "i = n" by simp
    with "1.prems" show ?thesis by (simp add: forLoop.simps[of n])
  qed
qed

lemma forLoop_total:
  assumes "i \<le> n" and "Inv i s"
    and step: "\<And>j t. i \<le> j \<Longrightarrow> j < n \<Longrightarrow> Inv j t \<Longrightarrow> \<exists>t'. body j t = Inr t' \<and> Inv (j + 1) t'"
  shows "\<exists>s'. forLoop i n body s = Inr s' \<and> Inv n s'"
proof -
  have "case forLoop i n body s of Inl e \<Rightarrow> False | Inr s' \<Rightarrow> Inv n s'"
  proof (rule forLoop_rule[where Inv = Inv and Q = "\<lambda>_. False"])
    show "i \<le> n" by fact
    show "Inv i s" by fact
  next
    fix j t assume "i \<le> j" "j < n" "Inv j t"
    from step[OF this] show "case body j t of Inl e \<Rightarrow> False | Inr t' \<Rightarrow> Inv (j + 1) t'"
      by auto
  qed
  then show ?thesis by (cases "forLoop i n body s") auto
qed

lemma forLoop_three:
  "forLoop (- 1) (1 + 1) body s =
     (case body (- 1) s of Inl e \<Rightarrow> Inl e | Inr s1 \<Rightarrow>
        (case body 0 s1 of Inl e \<Rightarrow> Inl e | Inr s2 \<Rightarrow> body 1 s2))"
  by (simp add: forLoop.simps[of "- 1"] forLoop.simps[of 0] forLoop.simps[of 1] forLoop.simps[of 2]
      split: sum.splits)

subsection \<open>Indices\<close>

text \<open>
  Inside the grid, \<open>xyToIndex\<close> is a bijection onto \<open>[0, WIDTH * HEIGHT)\<close>.
\<close>

lemma index_range: "isWithinGrid x y \<Longrightarrow> 0 \<le> xyToIndex x y \<and> xyToIndex x y < WIDTH * HEIGHT"
  unfolding isWithinGrid_def xyToIndex_def WIDTH_def HEIGHT_def by auto

lemma index_mod_div:
  "isWithinGrid x y \<Longrightarrow> xyToIndex x y mod WIDTH = x \<and> xyToIndex x y div WIDTH = y"
  unfolding isWithinGrid_def xyToIndex_def WIDTH_def HEIGHT_def by auto

lemma index_inj:
  "isWithinGrid x y \<Longrightarrow> isWithinGrid x' y' \<Longrightarrow> xyToIndex x y = xyToIndex x' y' \<Longrightarrow> x = x' \<and> y = y'"
  by (metis index_mod_div)

lemma index_onto:
  "0 \<le> k \<Longrightarrow> k < WIDTH * HEIGHT \<Longrightarrow>
     isWithinGrid (k mod WIDTH) (k div WIDTH) \<and> xyToIndex (k mod WIDTH) (k div WIDTH) = k"
  unfolding isWithinGrid_def xyToIndex_def WIDTH_def HEIGHT_def by auto

text \<open>The integers formed for an in-grid cell fit a 32-bit \<^verbatim>\<open>int\<close>, as does the allocation size.\<close>

lemma in_grid_no_overflow:
  "isWithinGrid x y \<Longrightarrow>
     xyToIndex x y < 2 ^ 31 \<and>
     square (x - WIDTH div 2) + square (y - HEIGHT div 2) < 2 ^ 31 \<and>
     square CENTRE_CIRCLE_RADIUS < 2 ^ 31 \<and> WIDTH * HEIGHT * 8 < 2 ^ 31"
proof -
  assume w: "isWithinGrid x y"
  then have "\<bar>x - 300\<bar> \<le> \<bar>300\<bar>" and "\<bar>y - 300\<bar> \<le> \<bar>300\<bar>"
    by (auto simp: isWithinGrid_def WIDTH_def HEIGHT_def)
  then have "(x - 300)\<^sup>2 \<le> 300\<^sup>2" and "(y - 300)\<^sup>2 \<le> 300\<^sup>2"
    by (simp_all only: abs_le_square_iff)
  then have "(x - 300) * (x - 300) \<le> 300 * 300" and "(y - 300) * (y - 300) \<le> 300 * 300"
    by (simp_all add: power2_eq_square)
  then have "(x - 300) * (x - 300) + (y - 300) * (y - 300) < 2 ^ 31"
    by simp
  moreover note index_range[OF w]
  ultimately show ?thesis
    by (simp add: square_def WIDTH_def HEIGHT_def CENTRE_CIRCLE_RADIUS_def)
qed

subsection \<open>Filling a grid cell by cell\<close>

text \<open>
  A nested loop whose body stores \<open>v x y\<close> in cell \<open>(x, y)\<close> of block \<open>n\<close>, and touches
  nothing else, fills the block with \<open>v\<close>.
\<close>

lemma frame_refl: "frame s n s"
  by (simp add: frame_def)

lemma frame_store: "frame s n t \<Longrightarrow> frame s n (store n i v t)"
  by (cases "n < length (heap t)") (auto simp: frame_def store_def nth_list_update list_update_beyond)

lemma frame_isGrid: "frame s n t \<Longrightarrow> isGrid s n \<Longrightarrow> isGrid t n"
  by (simp add: frame_def isGrid_def)

lemma store_nth_same:
  "isGrid t n \<Longrightarrow> isWithinGrid x y \<Longrightarrow> heap (store n (xyToIndex x y) v t) ! n ! nat (xyToIndex x y) = v"
  using index_range[of x y] by (simp add: store_def isGrid_def)

lemma store_nth_other:
  "isGrid t n \<Longrightarrow> isWithinGrid x y \<Longrightarrow> isWithinGrid x' y' \<Longrightarrow> (x', y') \<noteq> (x, y) \<Longrightarrow>
     heap (store n (xyToIndex x y) v t) ! n ! nat (xyToIndex x' y') = heap t ! n ! nat (xyToIndex x' y')"
proof -
  assume g: "isGrid t n" and a: "isWithinGrid x y" and b: "isWithinGrid x' y'" and ne: "(x', y') \<noteq> (x, y)"
  have "xyToIndex x' y' \<noteq> xyToIndex x y" using index_inj[OF b a] ne by auto
  moreover have "0 \<le> xyToIndex x y" "0 \<le> xyToIndex x' y'" using index_range a b by auto
  ultimately have "nat (xyToIndex x y) \<noteq> nat (xyToIndex x' y')" by simp
  then show ?thesis using g by (simp add: store_def isGrid_def)
qed

lemma filledI:
  assumes g: "isGrid s n" and f: "frame s n t"
    and v: "\<And>x y. isWithinGrid x y \<Longrightarrow> heap t ! n ! nat (xyToIndex x y) = v x y"
  shows "t = filled s n v"
proof -
  have len: "length (heap t ! n) = nat (WIDTH * HEIGHT)" using g f by (simp add: frame_def isGrid_def)
  have cells: "heap t ! n = map (\<lambda>k. v (int k mod WIDTH) (int k div WIDTH)) [0..<nat (WIDTH * HEIGHT)]"
  proof (rule nth_equalityI)
    show "length (heap t ! n) = length (map (\<lambda>k. v (int k mod WIDTH) (int k div WIDTH)) [0..<nat (WIDTH * HEIGHT)])"
      using len by simp
  next
    fix k assume "k < length (heap t ! n)"
    then have k: "0 \<le> int k" "int k < WIDTH * HEIGHT" using len by auto
    from index_onto[OF k] v[of "int k mod WIDTH" "int k div WIDTH"]
    have "heap t ! n ! nat (int k) = v (int k mod WIDTH) (int k div WIDTH)" by simp
    then show "heap t ! n ! k = map (\<lambda>k. v (int k mod WIDTH) (int k div WIDTH)) [0..<nat (WIDTH * HEIGHT)] ! k"
      using k by simp
  qed
  have "heap t = (heap s)[n := heap t ! n]"
  proof (rule nth_equalityI)
    show "length (heap t) = length ((heap s)[n := heap t ! n])" using f by (simp add: frame_def)
  next
    fix m assume "m < length (heap t)"
    then show "heap t ! m = (heap s)[n := heap t ! n] ! m"
      using f by (cases "m = n") (auto simp: frame_def)
  qed
  with cells have "heap t = heap (filled s n v)" by (simp add: filled_def)
  moreover have "trace t = trace (filled s n v)" using f by (simp add: frame_def filled_def)
  ultimately show ?thesis by (simp add: state.equality filled_def)
qed

lemma grid_loop:
  assumes g: "isGrid s n"
    and body: "\<And>x y t. isWithinGrid x y \<Longrightarrow> frame s n t \<Longrightarrow>
                 body x y t = Inr (store n (xyToIndex x y) (v x y) t)"
  shows "forLoop 0 WIDTH (\<lambda>x. forLoop 0 HEIGHT (body x)) s = Inr (filled s n v)"
proof -
  define Inner where "Inner = (\<lambda>i j t. frame s n t \<and>
      (\<forall>x y. isWithinGrid x y \<and> (x < i \<or> (x = i \<and> y < j)) \<longrightarrow> heap t ! n ! nat (xyToIndex x y) = v x y))"
  have inner: "\<exists>t'. forLoop 0 HEIGHT (body i) t = Inr t' \<and> Inner (i + 1) 0 t'"
    if i: "0 \<le> i" "i < WIDTH" and t: "Inner i 0 t" for i t
  proof -
    have "\<exists>t'. forLoop 0 HEIGHT (body i) t = Inr t' \<and> Inner i HEIGHT t'"
    proof (rule forLoop_total[where Inv = "Inner i"])
      show "0 \<le> HEIGHT" by (simp add: HEIGHT_def)
      show "Inner i 0 t" by fact
    next
      fix j u assume j: "0 \<le> j" "j < HEIGHT" and u: "Inner i j u"
      have w: "isWithinGrid i j" using i j by (simp add: isWithinGrid_def)
      have fr: "frame s n u" using u by (simp add: Inner_def)
      have gu: "isGrid u n" using frame_isGrid[OF fr g] .
      have "Inner i (j + 1) (store n (xyToIndex i j) (v i j) u)"
        unfolding Inner_def
      proof (intro conjI allI impI)
        show "frame s n (store n (xyToIndex i j) (v i j) u)" using frame_store[OF fr] .
      next
        fix x y assume a: "isWithinGrid x y \<and> (x < i \<or> x = i \<and> y < j + 1)"
        show "heap (store n (xyToIndex i j) (v i j) u) ! n ! nat (xyToIndex x y) = v x y"
        proof (cases "(x, y) = (i, j)")
          case True
          then show ?thesis using store_nth_same[OF gu w] by simp
        next
          case False
          with a have "x < i \<or> x = i \<and> y < j" by auto
          with a u have "heap u ! n ! nat (xyToIndex x y) = v x y" by (simp add: Inner_def)
          with store_nth_other[OF gu w _ False] a show ?thesis by simp
        qed
      qed
      with body[OF w fr]
      show "\<exists>t'. body i j u = Inr t' \<and> Inner i (j + 1) t'" by simp
    qed
    then obtain t' where t': "forLoop 0 HEIGHT (body i) t = Inr t'" "Inner i HEIGHT t'" by blast
    have "Inner (i + 1) 0 t'"
      unfolding Inner_def
    proof (intro conjI allI impI)
      show "frame s n t'" using t'(2) by (simp add: Inner_def)
    next
      fix x y assume a: "isWithinGrid x y \<and> (x < i + 1 \<or> x = i + 1 \<and> y < 0)"
      then have "x < i \<or> x = i \<and> y < HEIGHT" by (auto simp: isWithinGrid_def)
      with a t'(2) show "heap t' ! n ! nat (xyToIndex x y) = v x y" by (simp add: Inner_def)
    qed
    with t'(1) show ?thesis by blast
  qed
  have "\<exists>s'. forLoop 0 WIDTH (\<lambda>x. forLoop 0 HEIGHT (body x)) s = Inr s' \<and> Inner WIDTH 0 s'"
  proof (rule forLoop_total[where Inv = "\<lambda>i. Inner i 0"])
    show "0 \<le> WIDTH" by (simp add: WIDTH_def)
    show "Inner 0 0 s" by (auto simp: Inner_def frame_refl isWithinGrid_def)
  next
    fix i t assume "0 \<le> i" "i < WIDTH" "Inner i 0 t"
    then show "\<exists>t'. forLoop 0 HEIGHT (body i) t = Inr t' \<and> Inner (i + 1) 0 t'" by (rule inner)
  qed
  then obtain s' where s': "forLoop 0 WIDTH (\<lambda>x. forLoop 0 HEIGHT (body x)) s = Inr s'" "Inner WIDTH 0 s'"
    by blast
  have "s' = filled s n v"
  proof (rule filledI[OF g])
    show "frame s n s'" using s'(2) by (simp add: Inner_def)
  next
    fix x y assume "isWithinGrid x y"
    then show "heap s' ! n ! nat (xyToIndex x y) = v x y"
      using s'(2) by (simp add: Inner_def isWithinGrid_def)
  qed
  with s'(1) show ?thesis by simp
qed

subsection \<open>Loads and stores on an allocated grid\<close>

lemma isGrid_store: "isGrid t n \<Longrightarrow> isGrid (store m i v t) n"
  by (cases "m < length (heap t)") (auto simp: isGrid_def store_def nth_list_update list_update_beyond)

lemma deref_grid:
  "isGrid s n \<Longrightarrow> 0 \<le> i \<Longrightarrow> i < WIDTH * HEIGHT \<Longrightarrow> deref s (Addr n) i = Inr (heap s ! n ! nat i)"
  by (auto simp: deref_def isGrid_def)

lemma assign_grid:
  "isGrid s n \<Longrightarrow> 0 \<le> i \<Longrightarrow> i < WIDTH * HEIGHT \<Longrightarrow>
     assign (Addr n) i f s = Inr (store n i (f (heap s ! n ! nat i)) s)"
  by (auto simp: assign_def isGrid_def store_def)

lemma store_store: "store n i w (store n i v t) = store n i w t"
  by (cases "n < length (heap t)") (simp_all add: store_def list_update_beyond)

lemma heap_store_same:
  "isGrid t n \<Longrightarrow> 0 \<le> i \<Longrightarrow> i < WIDTH * HEIGHT \<Longrightarrow> heap (store n i v t) ! n ! nat i = v"
  by (auto simp: isGrid_def store_def)

lemma Cell_update_both: "(c :: 'f Cell)\<lparr>cell_a := u, cell_b := w\<rparr> = \<lparr>cell_a = u, cell_b = w\<rparr>"
  by (cases c) simp

lemma assign_a_b:
  assumes "isGrid s n" "0 \<le> i" "i < WIDTH * HEIGHT"
  shows "(case assign_a (Addr n) i u s of Inl e \<Rightarrow> Inl e | Inr s1 \<Rightarrow> assign_b (Addr n) i w s1)
           = Inr (store n i \<lparr>cell_a = u, cell_b = w\<rparr> s)"
proof -
  let ?s1 = "store n i ((heap s ! n ! nat i)\<lparr>cell_a := u\<rparr>) s"
  have 1: "assign_a (Addr n) i u s = Inr ?s1"
    using assms by (simp add: assign_a_def assign_grid)
  have 2: "assign_b (Addr n) i w ?s1 = Inr (store n i ((heap ?s1 ! n ! nat i)\<lparr>cell_b := w\<rparr>) ?s1)"
    using assms isGrid_store[OF assms(1)] by (simp add: assign_b_def assign_grid)
  show ?thesis
    using assms by (simp add: 1 2 heap_store_same store_store Cell_update_both)
qed

subsection \<open>Seeding\<close>

lemma withinDistance_iff:
  "0 \<le> d \<Longrightarrow> withinDistanceOfCentre x y d \<longleftrightarrow> distanceToCentre x y < real_of_int d"
proof -
  assume d: "0 \<le> d"
  let ?S = "(x - WIDTH div 2)\<^sup>2 + (y - HEIGHT div 2)\<^sup>2"
  have "distanceToCentre x y < real_of_int d \<longleftrightarrow> sqrt (real_of_int ?S) < sqrt ((real_of_int d)\<^sup>2)"
    using d by (simp add: distanceToCentre_def)
  also have "\<dots> \<longleftrightarrow> real_of_int ?S < (real_of_int d)\<^sup>2"
    by (rule real_sqrt_less_iff)
  also have "\<dots> \<longleftrightarrow> ?S < d\<^sup>2"
    by (metis of_int_less_iff of_int_power)
  also have "\<dots> \<longleftrightarrow> withinDistanceOfCentre x y d"
    by (simp add: withinDistanceOfCentre_def square_def power2_eq_square)
  finally show ?thesis by simp
qed

lemma seedGrid_filled:
  assumes g: "isGrid s n"
  shows "seedGrid (Addr n) s = Inr (filled s n seedCell)"
  unfolding seedGrid_def
proof (rule grid_loop[OF g])
  fix x y and t :: "'a state"
  assume w: "isWithinGrid x y" and f: "frame s n t"
  have gt: "isGrid t n" using frame_isGrid[OF f g] .
  have r: "0 \<le> xyToIndex x y" "xyToIndex x y < WIDTH * HEIGHT" using index_range[OF w] by auto
  have c: "withinDistanceOfCentre x y CENTRE_CIRCLE_RADIUS \<longleftrightarrow>
             distanceToCentre x y < real_of_int CENTRE_CIRCLE_RADIUS"
    by (rule withinDistance_iff) (simp add: CENTRE_CIRCLE_RADIUS_def)
  show "(let index = xyToIndex x y in
         if withinDistanceOfCentre x y CENTRE_CIRCLE_RADIUS then
           (case assign_a (Addr n) index 0 t of
              Inl e \<Rightarrow> Inl e
            | Inr s1 \<Rightarrow> assign_b (Addr n) index 1 s1)
         else
           (case assign_a (Addr n) index 1 t of
              Inl e \<Rightarrow> Inl e
            | Inr s1 \<Rightarrow> assign_b (Addr n) index 0 s1)) = Inr (store n (xyToIndex x y) (seedCell x y) t)"
    using c by (simp add: Let_def assign_a_b[OF gt r] seedCell_def)
qed

lemma heap_filled:
  "isGrid s n \<Longrightarrow> isWithinGrid x y \<Longrightarrow> heap (filled s n v) ! n ! nat (xyToIndex x y) = v x y"
  using index_range[of x y] index_mod_div[of x y]
  by (simp add: filled_def isGrid_def)

subsection \<open>The neighbour term\<close>

lemma foldl_filter:
  "foldl f d (filter P xs) = foldl (\<lambda>d p. if P p then f d p else d) d xs"
  by (induction xs arbitrary: d) simp_all

lemma nine_steps:
  assumes "\<And>dx dy d. body dx dy d = Inr (g d (dx, dy))"
  shows "forLoop (- 1) (1 + 1) (\<lambda>x. forLoop (- 1) (1 + 1) (body x)) d0 =
           Inr (foldl g d0 [(dx, dy). dx \<leftarrow> [- 1, 0, 1], dy \<leftarrow> [- 1, 0, 1]])"
proof -
  have three: "forLoop (- 1) 2 b s =
     (case b (- 1) s of Inl e \<Rightarrow> Inl e | Inr s1 \<Rightarrow>
        (case b 0 s1 of Inl e \<Rightarrow> Inl e | Inr s2 \<Rightarrow> b 1 s2))" for b :: "int \<Rightarrow> 'a \<Rightarrow> 'c + 'a" and s
    using forLoop_three[of b s] by simp
  show ?thesis by (simp add: three assms)
qed

lemma difference_pure:
  assumes g: "isGrid s g" and w: "isWithinGrid x y"
  shows "calculateDifferenceBetweenCellAndNeighbours F (Addr g) (Addr g, xyToIndex x y) x y s =
           Inr (neighbourDifference F (heap s ! g) x y)"
proof -
  let ?g = "\<lambda>d (dx, dy). if contributes x y (x + dx, y + dy)
                then addTerm F (heap s ! g) x y d (x + dx, y + dy) else d"
  have "calculateDifferenceBetweenCellAndNeighbours F (Addr g) (Addr g, xyToIndex x y) x y s =
          Inr (foldl ?g \<lparr>cell_a = 0, cell_b = 0\<rparr> [(dx, dy). dx \<leftarrow> [- 1, 0, 1], dy \<leftarrow> [- 1, 0, 1]])"
    unfolding calculateDifferenceBetweenCellAndNeighbours_def
  proof (rule nine_steps)
    fix dx dy :: int and d :: "'a Cell"
    have self: "deref s (Addr g) (xyToIndex x y) = Inr (heap s ! g ! nat (xyToIndex x y))"
      using deref_grid[OF g] index_range[OF w] by simp
    have other: "deref s (Addr g) (xyToIndex (x + dx) (y + dy)) =
                   Inr (heap s ! g ! nat (xyToIndex (x + dx) (y + dy)))"
      if "isWithinGrid (x + dx) (y + dy)"
      using deref_grid[OF g] index_range[OF that] by simp
    show "(if dx = 0 \<and> dy = 0 then
             (case deref s (fst (Addr g, xyToIndex x y)) (snd (Addr g, xyToIndex x y)) of
                Inl e \<Rightarrow> Inl e
              | Inr c \<Rightarrow>
                  Inr \<lparr>cell_a = cell_a d - cell_a c,
                       cell_b = cell_b d - cell_b c\<rparr>)
           else
             (let gridX = x + dx; gridY = y + dy in
              if isWithinGrid gridX gridY then
                (case deref s (Addr g) (xyToIndex gridX gridY) of
                   Inl e \<Rightarrow> Inl e
                 | Inr gridCell \<Rightarrow>
                     (let weight = (if dx = 0 \<or> dy = 0 then ADJACENT_NEIGHBOUR_WEIGHT F
                                    else DIAGONAL_NEIGHBOUR_WEIGHT F)
                      in Inr \<lparr>cell_a = cell_a d + weight * cell_a gridCell,
                              cell_b = cell_b d + weight * cell_b gridCell\<rparr>))
              else Inr d)) = Inr (?g d (dx, dy))"
      using self other by (auto simp: contributes_def addTerm_def Let_def)
  qed
  also have "foldl ?g \<lparr>cell_a = 0, cell_b = 0\<rparr> [(dx, dy). dx \<leftarrow> [- 1, 0, 1], dy \<leftarrow> [- 1, 0, 1]] =
      neighbourDifference F (heap s ! g) x y"
    by (simp add: neighbourDifference_def neighbourhood_def foldl_filter)
  finally show ?thesis .
qed

lemma self_once:
  "length (filter (\<lambda>p. p = (x, y)) (filter (contributes x y) (neighbourhood x y))) = 1"
  by (simp add: neighbourhood_def contributes_def)

lemma neighbour_count:
  assumes w: "isWithinGrid x y"
  shows "length (neighbours x y) =
           (if onBorder x WIDTH \<and> onBorder y HEIGHT then 3
            else if onBorder x WIDTH \<or> onBorder y HEIGHT then 5 else 8) \<and>
         length (filter (\<lambda>p. fst p = x \<or> snd p = y) (neighbours x y)) =
           (if onBorder x WIDTH \<and> onBorder y HEIGHT then 2
            else if onBorder x WIDTH \<or> onBorder y HEIGHT then 3 else 4)"
proof -
  have "x = 0 \<or> x = 599 \<or> (0 < x \<and> x < 599)"
    using w unfolding isWithinGrid_def WIDTH_def by linarith
  moreover have ys: "y = 0 \<or> y = 599 \<or> (0 < y \<and> y < 599)"
    using w unfolding isWithinGrid_def HEIGHT_def by linarith
  ultimately consider "x = 0" | "x = 599" | "0 < x" "x < 599" by blast
  then show ?thesis
  proof cases
    case 1
    from ys consider "y = 0" | "y = 599" | "0 < y" "y < 599" by blast
    then show ?thesis
      using 1 by cases (simp_all add: neighbours_def neighbourhood_def isWithinGrid_def onBorder_def
          WIDTH_def HEIGHT_def)
  next
    case 2
    from ys consider "y = 0" | "y = 599" | "0 < y" "y < 599" by blast
    then show ?thesis
      using 2 by cases (simp_all add: neighbours_def neighbourhood_def isWithinGrid_def onBorder_def
          WIDTH_def HEIGHT_def)
  next
    case 3
    from ys consider "y = 0" | "y = 599" | "0 < y" "y < 599" by blast
    then show ?thesis
      using 3 by cases (simp_all add: neighbours_def neighbourhood_def isWithinGrid_def onBorder_def
          WIDTH_def HEIGHT_def)
  qed
qed

subsection \<open>The per-cell update and the grid update\<close>

lemma heap_store_cell_b:
  assumes "isGrid s cur" "0 \<le> i" "i < WIDTH * HEIGHT"
  shows "cell_b (heap (store n k (c\<lparr>cell_a := v\<rparr>) s) ! cur ! nat i) =
         (if n = cur \<and> nat k = nat i then cell_b c else cell_b (heap s ! cur ! nat i))"
proof (cases "n = cur")
  case True
  then show ?thesis using assms by (simp add: store_def isGrid_def nth_list_update)
next
  case False
  then show ?thesis by (simp add: store_def)
qed

lemma calculateNewValue_store:
  assumes g: "isGrid s cur" and w: "isWithinGrid x y"
    and d: "isGrid s n" "0 \<le> k" "k < WIDTH * HEIGHT"
  shows "calculateNewValue F (Addr cur) (Addr n, k) x y s =
           Inr (store n k (newCell F (heap s ! cur) x y) s)"
proof -
  let ?i = "xyToIndex x y"
  let ?c = "heap s ! cur ! nat ?i"
  let ?diff = "neighbourDifference F (heap s ! cur) x y"
  let ?reaction = "cell_a ?c * cell_b ?c * cell_b ?c"
  let ?va = "cell_a ?c + (DIFFUSION_RATE_A F * cell_a ?diff - ?reaction
                            + getFeedRate F x y * (1 - cell_a ?c)) * TIME_STEP F"
  let ?vb = "cell_b ?c + (DIFFUSION_RATE_B F * cell_b ?diff + ?reaction
                            - (getKillRate F x y + getFeedRate F x y) * cell_b ?c) * TIME_STEP F"
  let ?old = "heap s ! n ! nat k"
  let ?s1 = "store n k (?old\<lparr>cell_a := ?va\<rparr>) s"
  have r: "0 \<le> ?i" "?i < WIDTH * HEIGHT" using index_range[OF w] by auto
  have 1: "calculateDifferenceBetweenCellAndNeighbours F (Addr cur) (Addr cur, ?i) x y s = Inr ?diff"
    by (rule difference_pure[OF g w])
  have 2: "deref s (Addr cur) ?i = Inr ?c"
    by (rule deref_grid[OF g r])
  have 3: "assign_a (Addr n) k ?va s = Inr ?s1"
    using d by (simp add: assign_a_def assign_grid)
  have g1: "isGrid ?s1 cur" "isGrid ?s1 n"
    using g d(1) by (simp_all add: isGrid_store)
  have 4: "deref ?s1 (Addr cur) ?i = Inr (heap ?s1 ! cur ! nat ?i)"
    by (rule deref_grid[OF g1(1) r])
  have b: "cell_b (heap ?s1 ! cur ! nat ?i) = cell_b ?c"
    using heap_store_cell_b[OF g r, where n = n and k = k and c = ?old and v = ?va] by auto
  have 5: "assign_b (Addr n) k ?vb ?s1 = Inr (store n k \<lparr>cell_a = ?va, cell_b = ?vb\<rparr> s)"
    using d g1(2) by (simp add: assign_b_def assign_grid heap_store_same store_store Cell_update_both)
  show ?thesis
    unfolding calculateNewValue_def
    by (simp add: 1 2 3 4 b 5 Let_def newCell_def)
qed

lemma updateGrid_filled:
  assumes g: "isGrid s cur" "isGrid s new" and ne: "cur \<noteq> new"
  shows "updateGrid F (Addr cur) (Addr new) s = Inr (filled s new (newCell F (heap s ! cur)))"
  unfolding updateGrid_def
proof (rule grid_loop[OF g(2)])
  fix x y and t :: "'a state"
  assume w: "isWithinGrid x y" and f: "frame s new t"
  have gt: "isGrid t new" using frame_isGrid[OF f g(2)] .
  have same: "heap t ! cur = heap s ! cur" using f ne by (simp add: frame_def)
  have gc: "isGrid t cur" using f g(1) same by (simp add: frame_def isGrid_def)
  show "calculateNewValue F (Addr cur) (Addr new, xyToIndex x y) x y t =
          Inr (store new (xyToIndex x y) (newCell F (heap s ! cur) x y) t)"
    using calculateNewValue_store[OF gc w gt] index_range[OF w] same by simp
qed

lemma filled_advance:
  "filled s n (newCell F cs) = s\<lparr>heap := (heap s)[n := advance F cs]\<rparr>"
  by (simp add: filled_def advance_def)

lemma updateGrid_total:
  assumes g: "isGrid s cur" "isGrid s new"
  shows "\<exists>s'. updateGrid F (Addr cur) (Addr new) s = Inr s' \<and> isGrid s' cur \<and> isGrid s' new"
  unfolding updateGrid_def
proof (rule forLoop_total[where Inv = "\<lambda>i t. isGrid t cur \<and> isGrid t new"])
  show "0 \<le> WIDTH" by (simp add: WIDTH_def)
  show "isGrid s cur \<and> isGrid s new" using g by simp
next
  fix i and t :: "'a state"
  assume i: "0 \<le> i" "i < WIDTH" and t: "isGrid t cur \<and> isGrid t new"
  show "\<exists>t'. forLoop 0 HEIGHT (\<lambda>y. calculateNewValue F (Addr cur) (Addr new, xyToIndex i y) i y) t = Inr t'
           \<and> isGrid t' cur \<and> isGrid t' new"
  proof (rule forLoop_total[where Inv = "\<lambda>i t. isGrid t cur \<and> isGrid t new"])
    show "0 \<le> HEIGHT" by (simp add: HEIGHT_def)
    show "isGrid t cur \<and> isGrid t new" by fact
  next
    fix j and u :: "'a state"
    assume j: "0 \<le> j" "j < HEIGHT" and u: "isGrid u cur \<and> isGrid u new"
    have w: "isWithinGrid i j" using i j by (simp add: isWithinGrid_def)
    show "\<exists>t'. calculateNewValue F (Addr cur) (Addr new, xyToIndex i j) i j u = Inr t'
             \<and> isGrid t' cur \<and> isGrid t' new"
      using calculateNewValue_store[of u cur i j new "xyToIndex i j" F] u w index_range[OF w]
      by (simp add: isGrid_store)
  qed
qed

subsection \<open>The grid engine: claims\<close>

lemma testGrids_isGrid: "isGrid testGrids 0" "isGrid testGrids (Suc 0)"
  by (simp_all add: isGrid_def testGrids_def)

lemma origin_in_grid: "isWithinGrid 0 0"
  by (simp add: isWithinGrid_def WIDTH_def HEIGHT_def)

lemma corner_difference:
  "neighbourDifference F (replicate (nat (WIDTH * HEIGHT)) c) 0 0 =
     \<lparr>cell_a = 0 - cell_a c + ADJACENT_NEIGHBOUR_WEIGHT F * cell_a c
                + ADJACENT_NEIGHBOUR_WEIGHT F * cell_a c + DIAGONAL_NEIGHBOUR_WEIGHT F * cell_a c,
      cell_b = 0 - cell_b c + ADJACENT_NEIGHBOUR_WEIGHT F * cell_b c
                + ADJACENT_NEIGHBOUR_WEIGHT F * cell_b c + DIAGONAL_NEIGHBOUR_WEIGHT F * cell_b c\<rparr>"
  by (simp add: neighbourDifference_def neighbourhood_def contributes_def addTerm_def isWithinGrid_def
      xyToIndex_def WIDTH_def HEIGHT_def Let_def)

lemma corner_cell: "replicate (nat (WIDTH * HEIGHT)) c ! nat (xyToIndex 0 0) = c"
  by (simp add: xyToIndex_def WIDTH_def HEIGHT_def)

lemma testGrids_heap:
  "heap testGrids ! 0 = replicate (nat (WIDTH * HEIGHT)) \<lparr>cell_a = Finite (1 / 2), cell_b = Finite (1 / 4)\<rparr>"
  by (simp add: testGrids_def)

lemma testGrids_difference:
  "neighbourDifference binary32 (heap testGrids ! 0) 0 0 =
     \<lparr>cell_a = Finite (- (9227469 / 33554432)), cell_b = Finite (- (9227469 / 67108864))\<rparr>"
  unfolding testGrids_heap corner_difference by code_simp

lemma testGrids_newCell:
  "newCell binary32 (heap testGrids ! 0) 0 0 =
     \<lparr>cell_a = Finite (7415529 / 33554432), cell_b = Finite (1538261 / 8388608)\<rparr>"
  unfolding testGrids_heap newCell_def corner_difference corner_cell by code_simp

text \<open>
  C2: for an in-grid cell of an allocated grid, the neighbour diffusion term the code
  computes is the fold, in scan order over the 3x3 neighbourhood, that subtracts the
  cell's own pair once, adds every in-grid orthogonal neighbour scaled by the adjacent
  weight and every in-grid diagonal neighbour scaled by the diagonal weight, and skips
  every out-of-grid position. The cell itself occurs exactly once among the terms; a
  corner cell has 3 contributing neighbours (2 of them orthogonal), any other border
  cell 5 (3 orthogonal) and an interior cell 8 (4 orthogonal).
\<close>

theorem neighbour_stencil:
  assumes "isGrid s g" and "isWithinGrid x y"
  shows "calculateDifferenceBetweenCellAndNeighbours F (Addr g) (Addr g, xyToIndex x y) x y s =
           Inr (neighbourDifference F (heap s ! g) x y) \<and>
         length (filter (\<lambda>p. p = (x, y)) (filter (contributes x y) (neighbourhood x y))) = 1 \<and>
         length (neighbours x y) =
           (if onBorder x WIDTH \<and> onBorder y HEIGHT then 3
            else if onBorder x WIDTH \<or> onBorder y HEIGHT then 5 else 8) \<and>
         length (filter (\<lambda>p. fst p = x \<or> snd p = y) (neighbours x y)) =
           (if onBorder x WIDTH \<and> onBorder y HEIGHT then 2
            else if onBorder x WIDTH \<or> onBorder y HEIGHT then 3 else 4)"
  using difference_pure[OF assms] self_once neighbour_count[OF assms(2)] by simp

theorem neighbour_stencil_witness:
  "isGrid testGrids 0 \<and> isWithinGrid 0 0 \<and>
   calculateDifferenceBetweenCellAndNeighbours binary32 (Addr 0) (Addr 0, xyToIndex 0 0) 0 0 testGrids =
     Inr \<lparr>cell_a = Finite (- (9227469 / 33554432)), cell_b = Finite (- (9227469 / 67108864))\<rparr> \<and>
   length (neighbours 0 0) = 3 \<and>
   length (filter (\<lambda>p. fst p = 0 \<or> snd p = 0) (neighbours 0 0)) = 2"
  using neighbour_stencil[OF testGrids_isGrid(1) origin_in_grid, of binary32]
  by (simp add: testGrids_isGrid origin_in_grid testGrids_difference onBorder_def)

text \<open>
  C1: for an in-grid cell \<open>(x, y)\<close>, \<open>calculateNewValue\<close> stores
  \<open>newA = A + (DIFFUSION_RATE_A * diff.A - reaction + f * (1 - A)) * TIME_STEP\<close> and
  \<open>newB = B + (DIFFUSION_RATE_B * diff.B + reaction - (k + f) * B) * TIME_STEP\<close> in the
  destination cell, where \<open>A\<close> and \<open>B\<close> are the cell's values in the current buffer
  before the call, \<open>reaction = A * B * B\<close>, \<open>diff\<close> is the result of the neighbour
  difference on the current buffer, and \<open>f\<close>, \<open>k\<close> are the feed and kill rates at
  \<open>(x, y)\<close>. It holds for every interpretation of the float operations.
\<close>

theorem calculateNewValue_formula:
  assumes "isGrid s cur" and "isGrid s new" and "isWithinGrid x y"
  shows "\<exists>diff s'.
           calculateDifferenceBetweenCellAndNeighbours F (Addr cur) (Addr cur, xyToIndex x y) x y s = Inr diff \<and>
           calculateNewValue F (Addr cur) (Addr new, xyToIndex x y) x y s = Inr s' \<and>
           (let A = cell_a (heap s ! cur ! nat (xyToIndex x y));
                B = cell_b (heap s ! cur ! nat (xyToIndex x y));
                reaction = A * B * B;
                f = getFeedRate F x y;
                k = getKillRate F x y
            in heap s' ! new ! nat (xyToIndex x y) =
                 \<lparr>cell_a = A + (DIFFUSION_RATE_A F * cell_a diff - reaction + f * (1 - A)) * TIME_STEP F,
                  cell_b = B + (DIFFUSION_RATE_B F * cell_b diff + reaction - (k + f) * B) * TIME_STEP F\<rparr>)"
proof -
  have r: "0 \<le> xyToIndex x y" "xyToIndex x y < WIDTH * HEIGHT" using index_range[OF assms(3)] by auto
  have "calculateNewValue F (Addr cur) (Addr new, xyToIndex x y) x y s =
          Inr (store new (xyToIndex x y) (newCell F (heap s ! cur) x y) s)"
    by (rule calculateNewValue_store[OF assms(1,3,2) r])
  moreover have "heap (store new (xyToIndex x y) (newCell F (heap s ! cur) x y) s) ! new ! nat (xyToIndex x y)
                   = newCell F (heap s ! cur) x y"
    by (rule heap_store_same[OF assms(2) r])
  ultimately show ?thesis
    using difference_pure[OF assms(1,3), of F] by (simp add: newCell_def Let_def)
qed

theorem calculateNewValue_formula_witness:
  "isGrid testGrids 0 \<and> isGrid testGrids (Suc 0) \<and> isWithinGrid 0 0 \<and>
   (\<exists>s'. calculateNewValue binary32 (Addr 0) (Addr (Suc 0), xyToIndex 0 0) 0 0 testGrids = Inr s' \<and>
         heap s' ! Suc 0 ! nat (xyToIndex 0 0) =
           \<lparr>cell_a = Finite (7415529 / 33554432), cell_b = Finite (1538261 / 8388608)\<rparr>)"
proof -
  from calculateNewValue_formula[OF testGrids_isGrid origin_in_grid, of binary32]
  obtain diff s' where
    d: "calculateDifferenceBetweenCellAndNeighbours binary32 (Addr 0) (Addr 0, xyToIndex 0 0) 0 0 testGrids = Inr diff"
    and n: "calculateNewValue binary32 (Addr 0) (Addr (Suc 0), xyToIndex 0 0) 0 0 testGrids = Inr s'"
    and v: "(let A = cell_a (heap testGrids ! 0 ! nat (xyToIndex 0 0));
                B = cell_b (heap testGrids ! 0 ! nat (xyToIndex 0 0));
                reaction = A * B * B;
                f = getFeedRate binary32 0 0;
                k = getKillRate binary32 0 0
            in heap s' ! Suc 0 ! nat (xyToIndex 0 0) =
                 \<lparr>cell_a = A + (DIFFUSION_RATE_A binary32 * cell_a diff - reaction + f * (1 - A)) * TIME_STEP binary32,
                  cell_b = B + (DIFFUSION_RATE_B binary32 * cell_b diff + reaction - (k + f) * B) * TIME_STEP binary32\<rparr>)"
    by blast
  have "diff = neighbourDifference binary32 (heap testGrids ! 0) 0 0"
    using d difference_pure[OF testGrids_isGrid(1) origin_in_grid, of binary32] by simp
  with v have "heap s' ! Suc 0 ! nat (xyToIndex 0 0) = newCell binary32 (heap testGrids ! 0) 0 0"
    by (simp add: newCell_def Let_def)
  with n show ?thesis by (simp add: testGrids_isGrid origin_in_grid testGrids_newCell)
qed

text \<open>
  C4: on two distinct allocated buffers, \<open>updateGrid\<close> returns; the current buffer,
  every other block and the trace are as before the call; the whole next buffer is
  replaced by \<open>advance\<close> of the current buffer, a function of the current buffer
  alone: started from any other state with the same current buffer, the call leaves
  the same contents in the next buffer, whatever that buffer held.
\<close>

theorem updateGrid_buffers:
  assumes "isGrid s cur" and "isGrid s new" and "cur \<noteq> new"
  shows "\<exists>s'. updateGrid F (Addr cur) (Addr new) s = Inr s' \<and>
           heap s' ! cur = heap s ! cur \<and>
           heap s' ! new = advance F (heap s ! cur) \<and>
           length (heap s') = length (heap s) \<and>
           (\<forall>m. m \<noteq> new \<longrightarrow> heap s' ! m = heap s ! m) \<and>
           trace s' = trace s \<and>
           (\<forall>t. isGrid t cur \<and> isGrid t new \<and> heap t ! cur = heap s ! cur \<longrightarrow>
              (\<exists>t'. updateGrid F (Addr cur) (Addr new) t = Inr t' \<and> heap t' ! new = heap s' ! new))"
proof -
  have n: "new < length (heap s)" using assms(2) by (simp add: isGrid_def)
  have "\<exists>t'. updateGrid F (Addr cur) (Addr new) t = Inr t' \<and> heap t' ! new = advance F (heap s ! cur)"
    if t: "isGrid t cur \<and> isGrid t new \<and> heap t ! cur = heap s ! cur" for t
  proof -
    have "updateGrid F (Addr cur) (Addr new) t = Inr (filled t new (newCell F (heap t ! cur)))"
      using t assms(3) by (intro updateGrid_filled) simp_all
    moreover have "new < length (heap t)" using t by (simp add: isGrid_def)
    ultimately show ?thesis using t by (simp add: filled_advance)
  qed
  then show ?thesis
    using updateGrid_filled[OF assms, of F] n assms(3)
    by (simp add: filled_advance)
qed

theorem updateGrid_buffers_witness:
  "isGrid testGrids 0 \<and> isGrid testGrids (Suc 0) \<and> (0::nat) \<noteq> Suc 0 \<and>
   (\<exists>s'. updateGrid binary32 (Addr 0) (Addr (Suc 0)) testGrids = Inr s' \<and>
      heap s' ! 0 = replicate (nat (WIDTH * HEIGHT)) \<lparr>cell_a = Finite (1 / 2), cell_b = Finite (1 / 4)\<rparr> \<and>
      heap s' ! Suc 0 ! 0 = \<lparr>cell_a = Finite (7415529 / 33554432), cell_b = Finite (1538261 / 8388608)\<rparr>)"
proof -
  have ne: "(0::nat) \<noteq> Suc 0" by simp
  from updateGrid_buffers[OF testGrids_isGrid ne, of binary32]
  obtain s' where u: "updateGrid binary32 (Addr 0) (Addr (Suc 0)) testGrids = Inr s'"
    and c: "heap s' ! 0 = heap testGrids ! 0"
    and a: "heap s' ! Suc 0 = advance binary32 (heap testGrids ! 0)"
    by blast
  have "advance binary32 (heap testGrids ! 0) ! 0 = newCell binary32 (heap testGrids ! 0) 0 0"
    by (simp add: advance_def WIDTH_def HEIGHT_def)
  with a have "heap s' ! Suc 0 ! 0 = \<lparr>cell_a = Finite (7415529 / 33554432), cell_b = Finite (1538261 / 8388608)\<rparr>"
    by (simp add: testGrids_newCell)
  moreover have "heap s' ! 0 = replicate (nat (WIDTH * HEIGHT)) \<lparr>cell_a = Finite (1 / 2), cell_b = Finite (1 / 4)\<rparr>"
    using c by (simp add: testGrids_def)
  ultimately show ?thesis using u by (simp add: testGrids_isGrid)
qed

text \<open>
  C3: on an allocated grid, seeding succeeds and leaves in every cell \<open>(x, y)\<close> the pair
  \<open>(A = 0, B = 1)\<close> exactly when the Euclidean distance from \<open>(x, y)\<close> to the centre
  \<open>(WIDTH / 2, HEIGHT / 2)\<close> is strictly less than the radius, and \<open>(A = 1, B = 0)\<close>
  otherwise. The instance after it evaluates a cell at distance exactly 20 (not seeded
  with B) and one at distance 19.
\<close>

theorem seedGrid_circle:
  assumes "isGrid s g" and "isWithinGrid x y"
  shows "\<exists>s'. seedGrid (Addr g) s = Inr s' \<and>
           heap s' ! g ! nat (xyToIndex x y) =
             (if distanceToCentre x y < real_of_int CENTRE_CIRCLE_RADIUS
              then \<lparr>cell_a = 0, cell_b = 1\<rparr> else \<lparr>cell_a = 1, cell_b = 0\<rparr>)"
  using assms by (simp add: seedGrid_filled heap_filled seedCell_def)

theorem seedGrid_circle_witness:
  "isGrid testGrids 0 \<and> isWithinGrid 320 300 \<and> isWithinGrid 319 300 \<and>
   (\<exists>s'. seedGrid (Addr 0) testGrids = Inr s' \<and>
      heap s' ! 0 ! nat (xyToIndex 320 300) = \<lparr>cell_a = 1, cell_b = 0\<rparr>) \<and>
   (\<exists>s'. seedGrid (Addr 0) testGrids = Inr s' \<and>
      heap s' ! 0 ! nat (xyToIndex 319 300) = \<lparr>cell_a = 0, cell_b = 1\<rparr>)"
proof -
  have w: "isWithinGrid 320 300" "isWithinGrid 319 300"
    by (simp_all add: isWithinGrid_def WIDTH_def HEIGHT_def)
  have d: "distanceToCentre 320 300 = 20" "distanceToCentre 319 300 = 19"
    using real_sqrt_abs[of 20] real_sqrt_abs[of 19]
    by (simp_all add: distanceToCentre_def WIDTH_def HEIGHT_def)
  show ?thesis
    using seedGrid_circle[OF testGrids_isGrid(1) w(1)] seedGrid_circle[OF testGrids_isGrid(1) w(2)]
    by (simp add: testGrids_isGrid w d CENTRE_CIRCLE_RADIUS_def)
qed

subsection \<open>The renderer\<close>

lemma collect_append:
  "collect f (ps @ qs) =
     (case collect f ps of
        Inl e \<Rightarrow> Inl e
      | Inr a \<Rightarrow> (case collect f qs of Inl e \<Rightarrow> Inl e | Inr b \<Rightarrow> Inr (a @ b)))"
  by (induction ps) (auto split: sum.splits)

lemma collect_map: "collect f (map h ps) = collect (\<lambda>p. f (h p)) ps"
  by (induction ps) (auto split: sum.splits)

lemma collect_nested:
  "collect (\<lambda>x. collect (\<lambda>y. f (x, y)) ys) xs = collect f (concat (map (\<lambda>x. map (\<lambda>y. (x, y)) ys) xs))"
  by (induction xs) (auto simp: collect_append collect_map split: sum.splits)

lemma collect_cong:
  "(\<And>p. p \<in> set ps \<Longrightarrow> f p = g p) \<Longrightarrow> collect f ps = collect g ps"
  by (induction ps) (auto split: sum.splits)

lemma collect_Inl:
  "collect f ps = Inl e \<Longrightarrow> \<exists>p \<in> set ps. f p = Inl e"
  by (induction ps) (auto split: sum.splits)

lemma collect_Inr:
  "(\<And>p. p \<in> set ps \<Longrightarrow> \<exists>evs. f p = Inr evs) \<Longrightarrow> \<exists>evs. collect f ps = Inr evs"
proof (induction ps)
  case Nil
  then show ?case by simp
next
  case (Cons p ps)
  from Cons.prems[of p] obtain a where a: "f p = Inr a" by auto
  from Cons.IH Cons.prems obtain b where b: "collect f ps = Inr b" by auto
  show ?case by (simp add: a b)
qed

lemma collect_singletons:
  "(\<And>p. p \<in> set ps \<Longrightarrow> f p = Inr [h p]) \<Longrightarrow> collect f ps = Inr (map h ps)"
  by (induction ps) auto

lemma collect_empties:
  "(\<And>p. p \<in> set ps \<Longrightarrow> f p = Inr []) \<Longrightarrow> collect f ps = Inr []"
  by (induction ps) auto

lemma collect_all2:
  assumes "collect f ps = Inr evs"
    and "\<And>p es. p \<in> set ps \<Longrightarrow> f p = Inr es \<Longrightarrow>
           (if keep p then \<exists>ev. es = [ev] \<and> R p ev else es = [])"
  shows "list_all2 R (filter keep ps) evs"
  using assms
proof (induction ps arbitrary: evs)
  case Nil
  then show ?case by simp
next
  case (Cons p ps)
  from Cons.prems(1) obtain a b where a: "f p = Inr a" and b: "collect f ps = Inr b"
    and evs: "evs = a @ b"
    by (auto split: sum.splits)
  have rest: "list_all2 R (filter keep ps) b"
    using Cons.IH[OF b] Cons.prems(2) by auto
  from Cons.prems(2)[of p a] a
  have "if keep p then \<exists>ev. a = [ev] \<and> R p ev else a = []" by simp
  with rest evs show ?case by (auto split: if_splits)
qed

lemma emit_loop:
  fixes s :: "'f state" and body :: "int \<Rightarrow> 'f state \<Rightarrow> error + 'f state"
  assumes "i \<le> n" and "heap s = H"
    and "\<And>j t. i \<le> j \<Longrightarrow> j < n \<Longrightarrow> heap t = H \<Longrightarrow>
           body j t = (case f j of Inl e \<Rightarrow> Inl e | Inr evs \<Rightarrow> Inr (t\<lparr>trace := trace t @ evs\<rparr>))"
  shows "forLoop i n body s =
           (case collect f [i..n - 1] of Inl e \<Rightarrow> Inl e | Inr evs \<Rightarrow> Inr (s\<lparr>trace := trace s @ evs\<rparr>))"
  using assms
proof (induction i n body s rule: forLoop.induct)
  case (1 i n body s)
  show ?case
  proof (cases "i < n")
    case False
    with "1.prems" have "i = n" by simp
    then show ?thesis by (simp add: forLoop.simps[of n])
  next
    case True
    then have up: "[i..n - 1] = i # [i + 1..n - 1]" by (simp add: upto_rec1)
    have b: "body i s = (case f i of Inl e \<Rightarrow> Inl e | Inr evs \<Rightarrow> Inr (s\<lparr>trace := trace s @ evs\<rparr>))"
      using "1.prems"(3)[of i s] True "1.prems"(2) by simp
    show ?thesis
    proof (cases "f i")
      case (Inl e)
      with b True up show ?thesis by (simp add: forLoop.simps[of i])
    next
      case (Inr evs)
      let ?s1 = "s\<lparr>trace := trace s @ evs\<rparr>"
      from Inr b have bs: "body i s = Inr ?s1" by simp
      have "forLoop (i + 1) n body ?s1 =
              (case collect f [i + 1..n - 1] of Inl e \<Rightarrow> Inl e
               | Inr r \<Rightarrow> Inr (?s1\<lparr>trace := trace ?s1 @ r\<rparr>))"
      proof (rule "1.IH"[OF True bs])
        show "i + 1 \<le> n" using True by simp
        show "heap ?s1 = H" using "1.prems"(2) by simp
      next
        fix j and t :: "'f state"
        assume "i + 1 \<le> j" "j < n" "heap t = H"
        then show "body j t = (case f j of Inl e \<Rightarrow> Inl e | Inr evs \<Rightarrow> Inr (t\<lparr>trace := trace t @ evs\<rparr>))"
          using "1.prems"(3)[of j t] by simp
      qed
      with bs True up Inr show ?thesis
        by (simp add: forLoop.simps[of i] split: sum.splits)
    qed
  qed
qed

lemma scanOrder_set: "p \<in> set scanOrder \<longleftrightarrow> isWithinGrid (fst p) (snd p)"
  by (cases p) (force simp: scanOrder_def isWithinGrid_def)

lemma saveSimulation_render:
  assumes g: "isGrid s g"
  shows "saveSimulation F (Addr g) it s =
           (case render F (heap s ! g) of
              Inl e \<Rightarrow> Inl e
            | Inr evs \<Rightarrow> Inr (s\<lparr>trace := trace s @ evs @ [SaveBMPFile (outputName it) WIDTH HEIGHT]\<rparr>))"
proof -
  let ?px = "\<lambda>p. pixelCall F (heap s ! g ! nat (xyToIndex (fst p) (snd p))) p"
  let ?body = "\<lambda>x y t.
       case deref t (Addr g) (xyToIndex x y) of
         Inl e \<Rightarrow> Inl e
       | Inr cell \<Rightarrow>
           (let denominator = cell_b cell + cell_a cell in
            if denominator \<noteq> 0 then
              (case fdiv (cell_b cell) denominator of
                 Inl e \<Rightarrow> Inl e
               | Inr t' \<Rightarrow>
              (case lerp F colourA colourB t' of
                 Inl e \<Rightarrow> Inl e
               | Inr pixelColour \<Rightarrow>
                   Inr (emit (DrawPixel y x (red pixelColour) (green pixelColour)
                                (blue pixelColour)) t)))
            else Inr t)"
  have cell: "?body x y t = (case ?px (x, y) of Inl e \<Rightarrow> Inl e | Inr evs \<Rightarrow> Inr (t\<lparr>trace := trace t @ evs\<rparr>))"
    if w: "isWithinGrid x y" and h: "heap t = heap s" for x y and t :: "'a state"
  proof -
    have gt: "isGrid t g" using g h by (simp add: isGrid_def)
    have "deref t (Addr g) (xyToIndex x y) = Inr (heap s ! g ! nat (xyToIndex x y))"
      using deref_grid[OF gt] index_range[OF w] h by simp
    then show ?thesis
      by (simp add: pixelCall_def Let_def fdiv_def emit_def split: sum.splits)
  qed
  have inner: "forLoop 0 HEIGHT (?body x) t =
      (case collect (\<lambda>y. ?px (x, y)) [0..HEIGHT - 1] of
         Inl e \<Rightarrow> Inl e | Inr evs \<Rightarrow> Inr (t\<lparr>trace := trace t @ evs\<rparr>))"
    if x: "0 \<le> x" "x < WIDTH" and h: "heap t = heap s" for x and t :: "'a state"
  proof (rule emit_loop[where H = "heap s"])
    show "0 \<le> HEIGHT" by (simp add: HEIGHT_def)
    show "heap t = heap s" by fact
  next
    fix j and u :: "'a state"
    assume "0 \<le> j" "j < HEIGHT" "heap u = heap s"
    then show "?body x j u = (case ?px (x, j) of Inl e \<Rightarrow> Inl e | Inr evs \<Rightarrow> Inr (u\<lparr>trace := trace u @ evs\<rparr>))"
      using x by (intro cell) (simp_all add: isWithinGrid_def)
  qed
  have "forLoop 0 WIDTH (\<lambda>x. forLoop 0 HEIGHT (?body x)) s =
      (case collect (\<lambda>x. collect (\<lambda>y. ?px (x, y)) [0..HEIGHT - 1]) [0..WIDTH - 1] of
         Inl e \<Rightarrow> Inl e | Inr evs \<Rightarrow> Inr (s\<lparr>trace := trace s @ evs\<rparr>))"
  proof (rule emit_loop[where H = "heap s"])
    show "0 \<le> WIDTH" by (simp add: WIDTH_def)
    show "heap s = heap s" by simp
  next
    fix j and u :: "'a state"
    assume "0 \<le> j" "j < WIDTH" "heap u = heap s"
    then show "forLoop 0 HEIGHT (?body j) u =
      (case collect (\<lambda>y. ?px (j, y)) [0..HEIGHT - 1] of
         Inl e \<Rightarrow> Inl e | Inr evs \<Rightarrow> Inr (u\<lparr>trace := trace u @ evs\<rparr>))"
      by (rule inner)
  qed
  also have "collect (\<lambda>x. collect (\<lambda>y. ?px (x, y)) [0..HEIGHT - 1]) [0..WIDTH - 1] = render F (heap s ! g)"
    using collect_nested[of ?px "[0..HEIGHT - 1]" "[0..WIDTH - 1]"]
    by (simp add: render_def scanOrder_def)
  finally show ?thesis
    by (simp add: saveSimulation_def Let_def emit_def outputName_def split: sum.splits)
qed

declare digits.simps [simp del]

lemma outputName_0: "outputName 0 = ''Output0.bmp''"
  by (simp add: outputName_def sprintf_d_def digits.simps[of 0])

lemma lerp_error: "lerp F ca cb t = Inl e \<Longrightarrow> e = CastOutOfRange"
  by (auto simp: lerp_def lerp_channel_def split: sum.splits option.splits)

lemma lerp_total:
  assumes "castTotal F"
  shows "\<exists>col. lerp F ca cb t = Inr col"
proof -
  have ch: "\<exists>d. lerp_channel F u w t = Inr d" for u w
  proof -
    from assms have "float_to_byte F (int_to_float F (uint w - uint u) * t) \<noteq> None"
      unfolding castTotal_def by blast
    then show ?thesis by (auto simp: lerp_channel_def)
  qed
  from ch[of "red ca" "red cb"] ch[of "green ca" "green cb"] ch[of "blue ca" "blue cb"]
  show ?thesis by (auto simp: lerp_def)
qed

lemma pixelCall_error: "pixelCall F c p = Inl e \<Longrightarrow> e = CastOutOfRange"
  by (auto simp: pixelCall_def dest: lerp_error split: if_splits sum.splits)

lemma render_error: "render F cs = Inl e \<Longrightarrow> e = CastOutOfRange"
  unfolding render_def by (auto dest!: collect_Inl pixelCall_error)

lemma render_total: "castTotal F \<Longrightarrow> \<exists>evs. render F cs = Inr evs"
  unfolding render_def
proof (rule collect_Inr)
  fix p assume "castTotal F"
  then show "\<exists>evs. pixelCall F (cs ! nat (xyToIndex (fst p) (snd p))) p = Inr evs"
    using lerp_total[of F colourA colourB
        "cell_b (cs ! nat (xyToIndex (fst p) (snd p)))
           / (cell_b (cs ! nat (xyToIndex (fst p) (snd p))) + cell_a (cs ! nat (xyToIndex (fst p) (snd p))))"]
    by (auto simp: pixelCall_def)
qed

lemma render_draws:
  assumes "render F cs = Inr evs"
  shows "list_all2
           (\<lambda>p ev. \<exists>col. lerp F colourA colourB
                            (cell_b (cs ! nat (xyToIndex (fst p) (snd p)))
                               / (cell_b (cs ! nat (xyToIndex (fst p) (snd p)))
                                  + cell_a (cs ! nat (xyToIndex (fst p) (snd p))))) = Inr col \<and>
                          ev = DrawPixel (snd p) (fst p) (red col) (green col) (blue col))
           (rendered cs) evs"
  unfolding rendered_def
  by (rule collect_all2[OF assms[unfolded render_def]])
     (auto simp: pixelCall_def split: if_splits sum.splits)

lemma list_all2_memD:
  "list_all2 R xs ys \<Longrightarrow> y \<in> set ys \<Longrightarrow> \<exists>x \<in> set xs. R x y"
  by (metis in_set_conv_nth list_all2_conv_all_nth)

lemma rendered_set:
  "p \<in> set (rendered cs) \<longleftrightarrow>
     isWithinGrid (fst p) (snd p) \<and>
     cell_b (cs ! nat (xyToIndex (fst p) (snd p))) + cell_a (cs ! nat (xyToIndex (fst p) (snd p))) \<noteq> 0"
  by (auto simp: rendered_def scanOrder_set)

text \<open>
  C9: when rendering an allocated grid succeeds, the events it appends are the draw
  calls followed by the one \<open>SaveBMPFile\<close>; the draw calls correspond one to one, in
  scan order, to the rendered cells (those with \<open>b + a \<noteq> 0\<close>), and the call for cell
  \<open>(x, y)\<close> is \<open>DrawPixel y x ...\<close>: column \<open>y\<close>, row \<open>x\<close>.
\<close>

theorem saveSimulation_transposed:
  assumes "isGrid s g" and "saveSimulation F (Addr g) it s = Inr s'"
  shows "\<exists>draws. trace s' = trace s @ draws @ [SaveBMPFile (outputName it) WIDTH HEIGHT] \<and>
           list_all2 (\<lambda>(x, y) ev. \<exists>r gr bl. ev = DrawPixel y x r gr bl) (rendered (heap s ! g)) draws"
proof -
  from assms obtain evs where r: "render F (heap s ! g) = Inr evs"
    and s': "s' = s\<lparr>trace := trace s @ evs @ [SaveBMPFile (outputName it) WIDTH HEIGHT]\<rparr>"
    by (auto simp: saveSimulation_render split: sum.splits)
  have "list_all2 (\<lambda>(x, y) ev. \<exists>r gr bl. ev = DrawPixel y x r gr bl) (rendered (heap s ! g)) evs"
    by (rule list_all2_mono[OF render_draws[OF r]]) auto
  with s' show ?thesis by auto
qed

text \<open>
  C6: rendering an allocated grid never divides by zero, whatever the cells hold; with
  a total byte cast it returns; and when it returns, no \<open>DrawPixel\<close> for the pixel of a
  cell with \<open>b + a = 0\<close> is among the events of the call. The instance after it
  renders a grid whose cells are all \<open>(0, 0)\<close>: the only event is the \<open>SaveBMPFile\<close>.
\<close>

theorem saveSimulation_guard:
  assumes "isGrid s g"
  shows "saveSimulation F (Addr g) it s \<noteq> Inl DivisionByZero \<and>
         (castTotal F \<longrightarrow> (\<exists>s'. saveSimulation F (Addr g) it s = Inr s')) \<and>
         (\<forall>s' x y r gr bl.
            saveSimulation F (Addr g) it s = Inr s' \<and> isWithinGrid x y \<and>
            cell_b (heap s ! g ! nat (xyToIndex x y)) + cell_a (heap s ! g ! nat (xyToIndex x y)) = 0
            \<longrightarrow> DrawPixel y x r gr bl \<notin> set (drop (length (trace s)) (trace s')))"
proof (intro conjI impI allI)
  show "saveSimulation F (Addr g) it s \<noteq> Inl DivisionByZero"
    using render_error[of F "heap s ! g"]
    by (auto simp: saveSimulation_render[OF assms] split: sum.splits)
next
  assume "castTotal F"
  from render_total[OF this, of "heap s ! g"]
  show "\<exists>s'. saveSimulation F (Addr g) it s = Inr s'"
    by (auto simp: saveSimulation_render[OF assms])
next
  fix s' x y r gr bl
  assume a: "saveSimulation F (Addr g) it s = Inr s' \<and> isWithinGrid x y \<and>
            cell_b (heap s ! g ! nat (xyToIndex x y)) + cell_a (heap s ! g ! nat (xyToIndex x y)) = 0"
  then obtain evs where rd: "render F (heap s ! g) = Inr evs"
    and s': "s' = s\<lparr>trace := trace s @ evs @ [SaveBMPFile (outputName it) WIDTH HEIGHT]\<rparr>"
    by (auto simp: saveSimulation_render[OF assms] split: sum.splits)
  show "DrawPixel y x r gr bl \<notin> set (drop (length (trace s)) (trace s'))"
  proof
    assume "DrawPixel y x r gr bl \<in> set (drop (length (trace s)) (trace s'))"
    with s' have "DrawPixel y x r gr bl \<in> set evs" by simp
    from list_all2_memD[OF render_draws[OF rd] this]
    obtain p where "p \<in> set (rendered (heap s ! g))" and "snd p = y" and "fst p = x" by auto
    with a show False by (auto simp: rendered_set)
  qed
qed

lemma castTotal_wrap: "castTotal binary32_wrap"
  unfolding castTotal_def
proof
  fix v show "float_to_byte binary32_wrap v \<noteq> None"
    by (cases v) (simp_all add: binary32_wrap_def)
qed

lemma blankGrid_isGrid: "isGrid blankGrid 0"
  by (simp add: isGrid_def blankGrid_def)

lemma scanOrder_nth_replicate:
  "p \<in> set scanOrder \<Longrightarrow> replicate (nat (WIDTH * HEIGHT)) c ! nat (xyToIndex (fst p) (snd p)) = c"
  using index_range[of "fst p" "snd p"] by (simp add: scanOrder_set)

lemma blank_pixel: "pixelCall F \<lparr>cell_a = Finite 0, cell_b = Finite 0\<rparr> p = Inr []"
proof -
  have "Finite 0 + Finite 0 = (0 :: float32)" by code_simp
  then show ?thesis by (simp add: pixelCall_def)
qed

lemma blankGrid_render: "render F (heap blankGrid ! 0) = Inr []"
  unfolding render_def
  by (rule collect_empties) (simp add: blankGrid_def scanOrder_nth_replicate blank_pixel)

theorem saveSimulation_guard_witness:
  "isGrid blankGrid 0 \<and>
   saveSimulation binary32 (Addr 0) 0 blankGrid \<noteq> Inl DivisionByZero \<and>
   saveSimulation binary32 (Addr 0) 0 blankGrid =
     Inr (blankGrid\<lparr>trace := [SaveBMPFile ''Output0.bmp'' 600 600]\<rparr>) \<and>
   castTotal binary32_wrap \<and>
   (\<exists>s'. saveSimulation binary32_wrap (Addr 0) 0 blankGrid = Inr s')"
proof -
  have t: "castTotal binary32_wrap" by (rule castTotal_wrap)
  have "saveSimulation binary32 (Addr 0) 0 blankGrid =
     Inr (blankGrid\<lparr>trace := [SaveBMPFile ''Output0.bmp'' 600 600]\<rparr>)"
    by (simp add: saveSimulation_render[OF blankGrid_isGrid] blankGrid_render outputName_0
        WIDTH_def HEIGHT_def)
       (simp add: blankGrid_def)
  then show ?thesis
    using saveSimulation_guard[OF blankGrid_isGrid, of binary32 0]
      saveSimulation_guard[OF blankGrid_isGrid, of binary32_wrap 0] t
    by (simp add: blankGrid_isGrid)
qed

lemma oddGrid_isGrid: "isGrid oddGrid 0"
  by (simp add: isGrid_def oddGrid_def)

lemma testGrids_pixel:
  "pixelCall binary32 \<lparr>cell_a = Finite (1 / 2), cell_b = Finite (1 / 4)\<rparr> p =
     Inr [DrawPixel (snd p) (fst p) 16 76 85]"
proof -
  have "Finite (1 / 4) + Finite (1 / 2) \<noteq> (0 :: float32)" by code_simp
  moreover have "lerp binary32 colourA colourB (Finite (1 / 4) / (Finite (1 / 4) + Finite (1 / 2))) =
                   Inr \<lparr>red = 16, green = 76, blue = 85\<rparr>" by code_simp
  ultimately show ?thesis by (simp add: pixelCall_def)
qed

lemma testGrids_render:
  "render binary32 (heap testGrids ! 0) = Inr (map (\<lambda>(x, y). DrawPixel y x 16 76 85) scanOrder)"
proof -
  have "collect (\<lambda>p. pixelCall binary32 (heap testGrids ! 0 ! nat (xyToIndex (fst p) (snd p))) p) scanOrder
          = Inr (map (\<lambda>p. DrawPixel (snd p) (fst p) 16 76 85) scanOrder)"
    by (rule collect_singletons) (simp add: testGrids_def scanOrder_nth_replicate testGrids_pixel)
  then show ?thesis by (simp add: render_def case_prod_unfold)
qed

theorem saveSimulation_transposed_witness:
  "isGrid testGrids 0 \<and>
   saveSimulation binary32 (Addr 0) 0 testGrids =
     Inr (testGrids\<lparr>trace := map (\<lambda>(x, y). DrawPixel y x 16 76 85) scanOrder
                               @ [SaveBMPFile ''Output0.bmp'' 600 600]\<rparr>) \<and>
   (\<exists>draws. map (\<lambda>(x, y). DrawPixel y x 16 76 85) scanOrder @ [SaveBMPFile ''Output0.bmp'' 600 600]
              = draws @ [SaveBMPFile (outputName 0) WIDTH HEIGHT] \<and>
            list_all2 (\<lambda>(x, y) ev. \<exists>r gr bl. ev = DrawPixel y x r gr bl)
              (rendered (heap testGrids ! 0)) draws)"
proof -
  have sv: "saveSimulation binary32 (Addr 0) 0 testGrids =
     Inr (testGrids\<lparr>trace := map (\<lambda>(x, y). DrawPixel y x 16 76 85) scanOrder
                               @ [SaveBMPFile ''Output0.bmp'' 600 600]\<rparr>)"
    by (simp add: saveSimulation_render[OF testGrids_isGrid(1)] testGrids_render outputName_0
        WIDTH_def HEIGHT_def)
       (simp add: testGrids_def)
  from saveSimulation_transposed[OF testGrids_isGrid(1) sv]
  show ?thesis using sv by (simp add: testGrids_isGrid) (simp add: testGrids_def)
qed





lemma oddGrid_pixel:
  "pixelCall binary32 \<lparr>cell_a = Finite 257, cell_b = Finite (- 1)\<rparr> p = Inr [DrawPixel (snd p) (fst p) 0 0 0]"
proof -
  have "Finite (- 1) + Finite 257 \<noteq> (0 :: float32)" by code_simp
  moreover have "lerp binary32 colourA colourB (Finite (- 1) / (Finite (- 1) + Finite 257)) =
                   Inr \<lparr>red = 0, green = 0, blue = 0\<rparr>" by code_simp
  ultimately show ?thesis by (simp add: pixelCall_def)
qed


text \<open>The same cell in a whole grid: every pixel is drawn with the colour \<open>(0, 0, 0)\<close>.\<close>

lemma oddGrid_saved:
  "saveSimulation binary32 (Addr 0) 0 oddGrid =
     Inr (oddGrid\<lparr>trace := map (\<lambda>(x, y). DrawPixel y x 0 0 0) scanOrder
                             @ [SaveBMPFile ''Output0.bmp'' 600 600]\<rparr>)"
proof -
  have "collect (\<lambda>p. pixelCall binary32 (heap oddGrid ! 0 ! nat (xyToIndex (fst p) (snd p))) p) scanOrder
          = Inr (map (\<lambda>p. DrawPixel (snd p) (fst p) 0 0 0) scanOrder)"
    by (rule collect_singletons) (simp add: oddGrid_def scanOrder_nth_replicate oddGrid_pixel)
  then have "render binary32 (heap oddGrid ! 0) = Inr (map (\<lambda>(x, y). DrawPixel y x 0 0 0) scanOrder)"
    by (simp add: render_def case_prod_unfold)
  then show ?thesis
    by (simp add: saveSimulation_render[OF oddGrid_isGrid] outputName_0 WIDTH_def HEIGHT_def)
       (simp add: oddGrid_def)
qed

lemma unguarded_index_out_of_bounds:
  "isGrid s g \<Longrightarrow> deref s (Addr g) (xyToIndex (- 1) 0) = Inl OutOfBounds"
  "isGrid s g \<Longrightarrow> deref s (Addr g) (xyToIndex WIDTH (HEIGHT - 1)) = Inl OutOfBounds"
  by (simp_all add: deref_def isGrid_def xyToIndex_def WIDTH_def HEIGHT_def)

text \<open>
  C10: an in-grid position has its index in \<open>[0, WIDTH * HEIGHT)\<close>, and on allocated
  grids seeding, the neighbour difference, the per-cell update and the whole-grid
  update return without any memory error, and rendering never fails with one (its only
  possible error is the byte cast). The unguarded index of an out-of-grid neighbour of
  a corner would be out of bounds (\<open>unguarded_index_out_of_bounds\<close>).
\<close>

theorem grid_accesses_in_bounds:
  assumes "isGrid s cur" and "isGrid s new" and "isWithinGrid x y"
  shows "0 \<le> xyToIndex x y \<and> xyToIndex x y < WIDTH * HEIGHT \<and>
         (\<exists>s'. seedGrid (Addr cur) s = Inr s') \<and>
         (\<exists>d. calculateDifferenceBetweenCellAndNeighbours F (Addr cur) (Addr cur, xyToIndex x y) x y s = Inr d) \<and>
         (\<exists>s'. calculateNewValue F (Addr cur) (Addr new, xyToIndex x y) x y s = Inr s') \<and>
         (\<exists>s'. updateGrid F (Addr cur) (Addr new) s = Inr s') \<and>
         saveSimulation F (Addr cur) it s \<notin> {Inl OutOfBounds, Inl NullDereference, Inl InvalidPointer}"
proof -
  have r: "0 \<le> xyToIndex x y" "xyToIndex x y < WIDTH * HEIGHT" using index_range[OF assms(3)] by auto
  have "saveSimulation F (Addr cur) it s \<notin> {Inl OutOfBounds, Inl NullDereference, Inl InvalidPointer}"
    using render_error[of F "heap s ! cur"]
    by (auto simp: saveSimulation_render[OF assms(1)] split: sum.splits)
  then show ?thesis
    using r seedGrid_filled[OF assms(1)] difference_pure[OF assms(1,3), of F]
      calculateNewValue_store[OF assms(1,3,2) r, of F] updateGrid_total[OF assms(1,2), of F]
    by auto
qed

theorem grid_accesses_in_bounds_witness:
  "isGrid testGrids 0 \<and> isGrid testGrids (Suc 0) \<and> isWithinGrid 0 0 \<and> xyToIndex 0 0 = 0 \<and>
   (\<exists>d. calculateDifferenceBetweenCellAndNeighbours binary32 (Addr 0) (Addr 0, xyToIndex 0 0) 0 0 testGrids = Inr d) \<and>
   (\<exists>s'. updateGrid binary32 (Addr 0) (Addr (Suc 0)) testGrids = Inr s') \<and>
   saveSimulation binary32 (Addr 0) 0 testGrids \<noteq> Inl OutOfBounds"
  using grid_accesses_in_bounds[OF testGrids_isGrid origin_in_grid, of binary32 0]
  by (simp add: testGrids_isGrid origin_in_grid xyToIndex_def)

subsection \<open>The driver\<close>

lemma captures_explicit: "captures ITERATIONS = map (\<lambda>j. 200 * j) [0..49]"
proof (rule sorted_distinct_set_unique)
  show "sorted (captures ITERATIONS)" unfolding captures_def by (rule sorted_wrt_filter) simp
  show "distinct (captures ITERATIONS)" by (simp add: captures_def)
  show "sorted (map (\<lambda>j. 200 * j) [0..49])"
  proof -
    have "sorted_wrt (\<lambda>x y. 200 * x \<le> 200 * y) [0..49::int]"
      by (rule sorted_wrt_mono_rel[where P = "(\<le>)"]) simp_all
    then show ?thesis by (simp add: sorted_map)
  qed
  show "distinct (map (\<lambda>j. 200 * j) [0..49])"
    by (simp add: distinct_map inj_on_def)
  show "set (captures ITERATIONS) = set (map (\<lambda>j. 200 * j) [0..49])"
  proof (intro set_eqI iffI)
    fix k assume "k \<in> set (captures ITERATIONS)"
    then have k: "0 \<le> k" "k \<le> 9999" "k mod 200 = 0"
      by (simp_all add: captures_def ITERATIONS_def IterationCapture_def)
    then have "k = 200 * (k div 200)" "0 \<le> k div 200" "k div 200 \<le> 49" by auto
    then show "k \<in> set (map (\<lambda>j. 200 * j) [0..49])" by (metis atLeastAtMost_iff image_eqI set_map set_upto)
  next
    fix k assume "k \<in> set (map (\<lambda>j. 200 * j) [0..49])"
    then show "k \<in> set (captures ITERATIONS)"
      by (auto simp: captures_def ITERATIONS_def IterationCapture_def)
  qed
qed

lemma forLoop_snoc:
  "i \<le> n \<Longrightarrow>
     forLoop i (n + 1) body s = (case forLoop i n body s of Inl e \<Rightarrow> Inl e | Inr t \<Rightarrow> body n t)"
proof (induction i n body s rule: forLoop.induct)
  case (1 i n body s)
  show ?case
  proof (cases "i < n")
    case True
    show ?thesis
    proof (cases "body i s")
      case (Inl e)
      with True show ?thesis by (simp add: forLoop.simps[of i "n + 1"] forLoop.simps[of i n])
    next
      case (Inr s')
      from "1.IH"[OF True Inr] True
      have "forLoop (i + 1) (n + 1) body s' =
              (case forLoop (i + 1) n body s' of Inl e \<Rightarrow> Inl e | Inr t \<Rightarrow> body n t)" by simp
      with Inr True show ?thesis by (simp add: forLoop.simps[of i "n + 1"] forLoop.simps[of i n])
    qed
  next
    case False
    with "1.prems" have "i = n" by simp
    then show ?thesis
      by (simp add: forLoop.simps[of n "n + 1"] forLoop.simps[of n n] forLoop.simps[of "n + 1" "n + 1"]
          split: sum.splits)
  qed
qed

lemma length_seeded: "length (seeded :: ('f::{zero,one}) Cell list) = nat (WIDTH * HEIGHT)"
  by (simp add: seeded_def)

lemma length_advance: "length (advance F cs) = nat (WIDTH * HEIGHT)"
  by (simp add: advance_def)

lemma length_generation: "length (generation F n) = nat (WIDTH * HEIGHT)"
  by (cases n) (simp_all add: generation_def length_seeded length_advance)

lemma generation_Suc: "generation F (Suc n) = advance F (generation F n)"
  by (simp add: generation_def)

lemma updateGrid_pair_first:
  assumes "length x = nat (WIDTH * HEIGHT)" and "length y = nat (WIDTH * HEIGHT)"
  shows "updateGrid F (Addr (length h)) (Addr (Suc (length h))) \<lparr>heap = h @ [x, y], trace = tr\<rparr> =
           Inr \<lparr>heap = h @ [x, advance F x], trace = tr\<rparr>"
proof -
  let ?s = "\<lparr>heap = h @ [x, y], trace = tr\<rparr>"
  have g: "isGrid ?s (length h)" "isGrid ?s (Suc (length h))"
    using assms by (simp_all add: isGrid_def nth_append)
  have "updateGrid F (Addr (length h)) (Addr (Suc (length h))) ?s =
          Inr (filled ?s (Suc (length h)) (newCell F (heap ?s ! length h)))"
    by (rule updateGrid_filled[OF g]) simp
  then show ?thesis by (simp add: filled_advance list_update_append)
qed

lemma updateGrid_pair_second:
  assumes "length x = nat (WIDTH * HEIGHT)" and "length y = nat (WIDTH * HEIGHT)"
  shows "updateGrid F (Addr (Suc (length h))) (Addr (length h)) \<lparr>heap = h @ [y, x], trace = tr\<rparr> =
           Inr \<lparr>heap = h @ [advance F x, x], trace = tr\<rparr>"
proof -
  let ?s = "\<lparr>heap = h @ [y, x], trace = tr\<rparr>"
  have g: "isGrid ?s (Suc (length h))" "isGrid ?s (length h)"
    using assms by (simp_all add: isGrid_def nth_append)
  have "updateGrid F (Addr (Suc (length h))) (Addr (length h)) ?s =
          Inr (filled ?s (length h) (newCell F (heap ?s ! Suc (length h))))"
    by (rule updateGrid_filled[OF g]) simp
  then show ?thesis by (simp add: filled_advance list_update_append nth_append)
qed

lemma saveSimulation_pair_first:
  assumes "length x = nat (WIDTH * HEIGHT)"
  shows "saveSimulation F (Addr (length h)) k \<lparr>heap = h @ [x, y], trace = tr\<rparr> =
           (case snapshot F x k of
              Inl e \<Rightarrow> Inl e
            | Inr sh \<Rightarrow> Inr \<lparr>heap = h @ [x, y], trace = tr @ sh\<rparr>)"
proof -
  have "isGrid \<lparr>heap = h @ [x, y], trace = tr\<rparr> (length h)"
    using assms by (simp add: isGrid_def)
  from saveSimulation_render[OF this, of F k] show ?thesis
    by (simp add: snapshot_def split: sum.splits)
qed

lemma saveSimulation_pair_second:
  assumes "length x = nat (WIDTH * HEIGHT)"
  shows "saveSimulation F (Addr (Suc (length h))) k \<lparr>heap = h @ [y, x], trace = tr\<rparr> =
           (case snapshot F x k of
              Inl e \<Rightarrow> Inl e
            | Inr sh \<Rightarrow> Inr \<lparr>heap = h @ [y, x], trace = tr @ sh\<rparr>)"
proof -
  have "isGrid \<lparr>heap = h @ [y, x], trace = tr\<rparr> (Suc (length h))"
    using assms by (simp add: isGrid_def nth_append)
  from saveSimulation_render[OF this, of F k] show ?thesis
    by (simp add: snapshot_def nth_append split: sum.splits)
qed

lemma buffers_shape:
  obtains oth where "length oth = nat (WIDTH * HEIGHT)"
    and "buffers F junk n = (if even n then [generation F n, oth] else [oth, generation F n])"
proof (cases "n = 0")
  case True
  show ?thesis
    by (rule that[of "map junk [0..<nat (WIDTH * HEIGHT)]"])
       (simp_all add: True buffers_def generation_def)
next
  case False
  show ?thesis
    by (rule that[of "generation F (n - 1)"]) (simp_all add: False buffers_def length_generation)
qed

lemma buffers_Suc:
  "buffers F junk (Suc n) =
     (if even n then [generation F n, generation F (Suc n)] else [generation F (Suc n), generation F n])"
  by (simp add: buffers_def)

lemma captures_Suc:
  "0 \<le> n \<Longrightarrow> captures (n + 1) = captures n @ (if n mod IterationCapture = 0 then [n] else [])"
proof -
  assume "0 \<le> n"
  then have "[0..n] = [0..n - 1] @ [n]" by (simp add: upto_rec2)
  then show ?thesis by (simp add: captures_def)
qed

lemma simulationLoop_Suc:
  "simulationLoop F cur new (int n + 1) s =
     (case simulationLoop F cur new (int n) s of
        Inl e \<Rightarrow> Inl e
      | Inr t \<Rightarrow>
          if int n mod 2 = 0 then
            (case updateGrid F cur new t of
               Inl e \<Rightarrow> Inl e
             | Inr s' \<Rightarrow>
                 if int n mod IterationCapture = 0
                 then saveSimulation F cur (int n) s'
                 else Inr s')
          else
            (case updateGrid F new cur t of
               Inl e \<Rightarrow> Inl e
             | Inr s' \<Rightarrow>
                 if int n mod IterationCapture = 0
                 then saveSimulation F new (int n) s'
                 else Inr s'))"
  unfolding simulationLoop_def by (rule forLoop_snoc) simp

lemma simulationLoop_run:
  "simulationLoop F (Addr (length h)) (Addr (Suc (length h))) (int n)
       \<lparr>heap = h @ buffers F junk 0, trace = tr\<rparr> =
     (case collect (\<lambda>k. snapshot F (generation F (nat k)) k) (captures (int n)) of
        Inl e \<Rightarrow> Inl e
      | Inr evs \<Rightarrow> Inr \<lparr>heap = h @ buffers F junk n, trace = tr @ evs\<rparr>)"
proof (induction n)
  case 0
  show ?case
    by (simp add: simulationLoop_def forLoop.simps[of 0 0] captures_def)
next
  case (Suc n)
  have c: "captures (int n + 1) = captures (int n) @ (if int n mod IterationCapture = 0 then [int n] else [])"
    by (rule captures_Suc) simp
  obtain oth where oth: "length oth = nat (WIDTH * HEIGHT)"
    and b: "buffers F junk n = (if even n then [generation F n, oth] else [oth, generation F n])"
    by (rule buffers_shape)
  have i: "int (Suc n) = int n + 1" by simp
  show ?case
  proof (cases "collect (\<lambda>k. snapshot F (generation F (nat k)) k) (captures (int n))")
    case (Inl e)
    with Suc.IH show ?thesis
      unfolding i simulationLoop_Suc c collect_append by simp
  next
    case (Inr evs)
    show ?thesis
    proof (cases "even n")
      case True
      then have m: "int n mod 2 = 0" by presburger
      show ?thesis
        unfolding i simulationLoop_Suc c collect_append
        using Suc.IH Inr True m b
        by (simp add: updateGrid_pair_first length_generation oth buffers_Suc generation_Suc
            saveSimulation_pair_first length_advance split: sum.splits)
    next
      case False
      then have m: "int n mod 2 \<noteq> 0" by presburger
      show ?thesis
        unfolding i simulationLoop_Suc c collect_append
        using Suc.IH Inr False m b
        by (simp add: updateGrid_pair_second length_generation oth buffers_Suc generation_Suc
            saveSimulation_pair_second length_advance split: sum.splits)
    qed
  qed
qed

lemma state_eta: "(s :: 'f state)\<lparr>heap := H, trace := T\<rparr> = \<lparr>heap = H, trace = T\<rparr>"
  by (cases s) simp

lemma seeded_filled:
  "length b1 = nat (WIDTH * HEIGHT) \<Longrightarrow>
   seedGrid (Addr (length h)) \<lparr>heap = h @ b1 # bs, trace = tr\<rparr> =
     Inr \<lparr>heap = h @ seeded # bs, trace = tr\<rparr>"
proof -
  assume l: "length b1 = nat (WIDTH * HEIGHT)"
  have "isGrid \<lparr>heap = h @ b1 # bs, trace = tr\<rparr> (length h)" using l by (simp add: isGrid_def)
  from seedGrid_filled[OF this] show ?thesis
    by (simp add: filled_def seeded_def list_update_append)
qed

lemma snapshots_error:
  "collect (\<lambda>k. snapshot F (generation F (nat k)) k) ks = Inl e \<Longrightarrow> e = CastOutOfRange"
  by (auto dest!: collect_Inl simp: snapshot_def dest: render_error split: sum.splits)

lemma snapshots_total:
  assumes "castTotal F"
  shows "\<exists>evs. collect (\<lambda>k. snapshot F (generation F (nat k)) k) ks = Inr evs"
proof (rule collect_Inr)
  fix k
  from render_total[OF assms, of "generation F (nat k)"]
  show "\<exists>evs. snapshot F (generation F (nat k)) k = Inr evs"
    by (auto simp: snapshot_def)
qed

lemma startSimulation_run:
  "startSimulation F (Some i1) (Some i2) s0 =
     (case collect (\<lambda>k. snapshot F (generation F (nat k)) k) (captures ITERATIONS @ [ITERATIONS]) of
        Inl e \<Rightarrow> Inl e
      | Inr evs \<Rightarrow>
          Inr \<lparr>heap = heap s0 @ [generation F (nat ITERATIONS), generation F (nat ITERATIONS - 1)],
               trace = trace s0 @ LoadBMPFile ''blank.bmp'' # evs\<rparr>)"
proof -
  let ?h = "heap s0"
  let ?b1 = "map i1 [0..<nat (WIDTH * HEIGHT)]"
  let ?b2 = "map i2 [0..<nat (WIDTH * HEIGHT)]"
  let ?tr = "trace s0 @ [LoadBMPFile ''blank.bmp'']"
  let ?snaps = "\<lambda>ks. collect (\<lambda>k. snapshot F (generation F (nat k)) k) ks"
  have seed: "seedGrid (Addr (length ?h)) \<lparr>heap = ?h @ [?b1, ?b2], trace = ?tr\<rparr> =
                Inr \<lparr>heap = ?h @ buffers F i2 0, trace = ?tr\<rparr>"
    by (simp add: seeded_filled buffers_def)
  have it: "ITERATIONS = int 10000" by (simp add: ITERATIONS_def)
  have loop: "simulationLoop F (Addr (length ?h)) (Addr (Suc (length ?h))) ITERATIONS
                \<lparr>heap = ?h @ buffers F i2 0, trace = ?tr\<rparr> =
              (case ?snaps (captures ITERATIONS) of
                 Inl e \<Rightarrow> Inl e
               | Inr evs \<Rightarrow>
                   Inr \<lparr>heap = ?h @ [generation F 10000, generation F 9999], trace = ?tr @ evs\<rparr>)"
  proof -
    have b: "buffers F i2 10000 = [generation F 10000, generation F 9999]"
      by (simp add: buffers_def)
    show ?thesis unfolding it simulationLoop_run b ..
  qed
  have final: "saveSimulation F (Addr (length ?h)) k
                 \<lparr>heap = ?h @ [generation F 10000, generation F 9999], trace = tr\<rparr> =
               (case snapshot F (generation F 10000) k of
                  Inl e \<Rightarrow> Inl e
                | Inr sh \<Rightarrow>
                    Inr \<lparr>heap = ?h @ [generation F 10000, generation F 9999], trace = tr @ sh\<rparr>)" for tr k
    by (rule saveSimulation_pair_first) (rule length_generation)
  have start: "startSimulation F (Some i1) (Some i2) s0 =
     (case simulationLoop F (Addr (length ?h)) (Addr (Suc (length ?h))) ITERATIONS
             \<lparr>heap = ?h @ buffers F i2 0, trace = ?tr\<rparr> of
        Inl e \<Rightarrow> Inl e
      | Inr s4 \<Rightarrow> saveSimulation F (Addr (length ?h)) ITERATIONS s4)"
    using seed by (simp add: startSimulation_def createGrid_def emit_def state_eta ITERATIONS_def)
  show ?thesis
    unfolding start loop collect_append
    by (simp add: final ITERATIONS_def split: sum.splits)
qed

subsection \<open>Allocation failure\<close>

lemma forLoop_first_error:
  "i < n \<Longrightarrow> body i s = Inl e \<Longrightarrow> forLoop i n body s = Inl e"
  by (simp add: forLoop.simps[of i n])

lemma seedGrid_null: "seedGrid Null s = Inl NullDereference"
  unfolding seedGrid_def
proof (rule forLoop_first_error)
  show "(0::int) < WIDTH" by (simp add: WIDTH_def)
  show "forLoop 0 HEIGHT
          (\<lambda>y s. let index = xyToIndex 0 y in
                 if withinDistanceOfCentre 0 y CENTRE_CIRCLE_RADIUS then
                   (case assign_a Null index 0 s of
                      Inl e \<Rightarrow> Inl e
                    | Inr s1 \<Rightarrow> assign_b Null index 1 s1)
                 else
                   (case assign_a Null index 1 s of
                      Inl e \<Rightarrow> Inl e
                    | Inr s1 \<Rightarrow> assign_b Null index 0 s1)) s = Inl NullDereference"
    by (rule forLoop_first_error) (simp_all add: HEIGHT_def assign_a_def assign_def Let_def)
qed

lemma first_cell_null:
  assumes "isGrid s cur"
  shows "calculateNewValue F (Addr cur) (Null, xyToIndex 0 0) 0 0 s = Inl NullDereference"
  using difference_pure[OF assms origin_in_grid, of F] deref_grid[OF assms, of "xyToIndex 0 0"]
    index_range[OF origin_in_grid]
  by (simp add: calculateNewValue_def Let_def assign_a_def assign_def)

lemma updateGrid_null:
  assumes "isGrid s cur"
  shows "updateGrid F (Addr cur) Null s = Inl NullDereference"
proof -
  have column: "forLoop 0 HEIGHT (\<lambda>y. calculateNewValue F (Addr cur) (Null, xyToIndex 0 y) 0 y) s
               = Inl NullDereference"
    by (rule forLoop_first_error) (simp_all add: HEIGHT_def first_cell_null[OF assms])
  show ?thesis
    unfolding updateGrid_def by (rule forLoop_first_error) (simp_all add: WIDTH_def column)
qed

lemma simulationLoop_null:
  assumes "isGrid s cur" and "0 < n"
  shows "simulationLoop F (Addr cur) Null n s = Inl NullDereference"
  unfolding simulationLoop_def
  by (rule forLoop_first_error) (simp_all add: assms updateGrid_null[OF assms(1)])

lemma seeded_isGrid: "isGrid \<lparr>heap = h @ [seeded], trace = tr\<rparr> (length h)"
  by (simp add: isGrid_def length_seeded)

lemma startSimulation_first_null: "startSimulation F None m2 s0 = Inl NullDereference"
  by (cases "createGrid m2 s0") (simp add: startSimulation_def createGrid_def seedGrid_null)

lemma startSimulation_second_null: "startSimulation F (Some i1) None s0 = Inl NullDereference"
proof -
  let ?s = "\<lparr>heap = heap s0 @ [seeded], trace = trace s0 @ [LoadBMPFile ''blank.bmp'']\<rparr> :: 'a state"
  have "simulationLoop F (Addr (length (heap s0))) Null ITERATIONS ?s = Inl NullDereference"
    by (rule simulationLoop_null[OF seeded_isGrid]) (simp add: ITERATIONS_def)
  then show ?thesis
    using seeded_filled[of "map i1 [0..<nat (WIDTH * HEIGHT)]" "heap s0" "[]"
        "trace s0 @ [LoadBMPFile ''blank.bmp'']"]
    by (simp add: startSimulation_def createGrid_def emit_def state_eta)
qed

text \<open>
  C7, as amended: a failed allocation is not detected, and the run ends in a
  dereference of the null pointer (undefined behaviour of the C program), not in a
  controlled abort. \<open>createGrid\<close> hands back the null pointer and leaves the state as
  it is. When the first allocation fails, \<open>seedGrid\<close> is called on the null pointer and
  dereferences it at its first store, and so ends \<open>startSimulation\<close>, whatever the
  second allocation does. When only the second allocation fails, the first buffer is
  allocated and \<open>seedGrid\<close> seeds it; then the first call of \<open>updateGrid\<close>, in iteration
  \<open>0\<close> of the loop, dereferences the null \<open>newGrid\<close> at the store of its first cell, so
  the loop fails in its first iteration and \<open>startSimulation\<close> ends in that
  dereference.
\<close>

theorem allocation_failure_unchecked:
  "createGrid None s = (Null, s) \<and>
   assign_a Null (xyToIndex 0 0) 1 s = Inl NullDereference \<and>
   seedGrid Null s = Inl NullDereference \<and>
   startSimulation F None m2 s = Inl NullDereference \<and>
   createGrid (Some i1) s =
     (Addr (length (heap s)), s\<lparr>heap := heap s @ [map i1 [0..<nat (WIDTH * HEIGHT)]]\<rparr>) \<and>
   seedGrid (Addr (length (heap s)))
     \<lparr>heap = heap s @ [map i1 [0..<nat (WIDTH * HEIGHT)]],
      trace = trace s @ [LoadBMPFile ''blank.bmp'']\<rparr> =
     Inr \<lparr>heap = heap s @ [seeded], trace = trace s @ [LoadBMPFile ''blank.bmp'']\<rparr> \<and>
   calculateNewValue F (Addr (length (heap s))) (Null, xyToIndex 0 0) 0 0
     \<lparr>heap = heap s @ [seeded], trace = trace s @ [LoadBMPFile ''blank.bmp'']\<rparr> =
     Inl NullDereference \<and>
   updateGrid F (Addr (length (heap s))) Null
     \<lparr>heap = heap s @ [seeded], trace = trace s @ [LoadBMPFile ''blank.bmp'']\<rparr> =
     Inl NullDereference \<and>
   simulationLoop F (Addr (length (heap s))) Null 1
     \<lparr>heap = heap s @ [seeded], trace = trace s @ [LoadBMPFile ''blank.bmp'']\<rparr> =
     Inl NullDereference \<and>
   simulationLoop F (Addr (length (heap s))) Null ITERATIONS
     \<lparr>heap = heap s @ [seeded], trace = trace s @ [LoadBMPFile ''blank.bmp'']\<rparr> =
     Inl NullDereference \<and>
   startSimulation F (Some i1) None s = Inl NullDereference"
proof (intro conjI)
  let ?t = "\<lparr>heap = heap s @ [seeded], trace = trace s @ [LoadBMPFile ''blank.bmp'']\<rparr> :: 'a state"
  have g: "isGrid ?t (length (heap s))" by (rule seeded_isGrid)
  show "createGrid None s = (Null, s)" by (simp add: createGrid_def)
  show "assign_a Null (xyToIndex 0 0) 1 s = Inl NullDereference"
    by (simp add: assign_a_def assign_def)
  show "seedGrid Null s = Inl NullDereference" by (rule seedGrid_null)
  show "startSimulation F None m2 s = Inl NullDereference" by (rule startSimulation_first_null)
  show "createGrid (Some i1) s =
          (Addr (length (heap s)), s\<lparr>heap := heap s @ [map i1 [0..<nat (WIDTH * HEIGHT)]]\<rparr>)"
    by (simp add: createGrid_def)
  show "seedGrid (Addr (length (heap s)))
          \<lparr>heap = heap s @ [map i1 [0..<nat (WIDTH * HEIGHT)]],
           trace = trace s @ [LoadBMPFile ''blank.bmp'']\<rparr> = Inr ?t"
    using seeded_filled[of "map i1 [0..<nat (WIDTH * HEIGHT)]" "heap s" "[]"
        "trace s @ [LoadBMPFile ''blank.bmp'']"]
    by simp
  show "calculateNewValue F (Addr (length (heap s))) (Null, xyToIndex 0 0) 0 0 ?t = Inl NullDereference"
    by (rule first_cell_null[OF g])
  show "updateGrid F (Addr (length (heap s))) Null ?t = Inl NullDereference"
    by (rule updateGrid_null[OF g])
  show "simulationLoop F (Addr (length (heap s))) Null 1 ?t = Inl NullDereference"
    by (rule simulationLoop_null[OF g]) simp
  show "simulationLoop F (Addr (length (heap s))) Null ITERATIONS ?t = Inl NullDereference"
    by (rule simulationLoop_null[OF g]) (simp add: ITERATIONS_def)
  show "startSimulation F (Some i1) None s = Inl NullDereference"
    by (rule startSimulation_second_null)
qed

text \<open>
  C7 as stated fails: with both allocations failing the run is not stopped at the
  allocation, \<open>seedGrid\<close> is performed on the unallocated buffer; with only the second
  one failing the run goes on until \<open>updateGrid\<close> is performed on the unallocated
  \<open>newGrid\<close>. Either way the run ends in the dereference of the null pointer.
\<close>

theorem allocation_failure_counterexample:
  "createGrid None emptyState = (Null, emptyState) \<and>
   seedGrid Null emptyState = Inl NullDereference \<and>
   startSimulation binary32 None None emptyState = Inl NullDereference \<and>
   updateGrid binary32 (Addr 0) Null \<lparr>heap = [seeded], trace = [LoadBMPFile ''blank.bmp'']\<rparr> =
     Inl NullDereference \<and>
   startSimulation binary32 (Some zeroCells) None emptyState = Inl NullDereference"
  using updateGrid_null[OF seeded_isGrid[of "[]" "[LoadBMPFile ''blank.bmp'']"], of binary32]
  by (simp add: createGrid_def seedGrid_null startSimulation_first_null startSimulation_second_null)

subsection \<open>The whole run\<close>

lemma digit_table:
  assumes "d < 10"
  shows "isDigit (''0123456789'' ! d)" and "digitValue (''0123456789'' ! d) = d"
    and "''0123456789'' ! d = CHR ''0'' \<longleftrightarrow> d = 0"
proof -
  from assms have "d = 0 \<or> d = 1 \<or> d = 2 \<or> d = 3 \<or> d = 4 \<or> d = 5 \<or> d = 6 \<or> d = 7 \<or> d = 8 \<or> d = 9"
    by arith
  then show "isDigit (''0123456789'' ! d)" and "digitValue (''0123456789'' ! d) = d"
    and "''0123456789'' ! d = CHR ''0'' \<longleftrightarrow> d = 0"
    by (auto simp: isDigit_def digitValue_def)
qed

lemma digits_nonempty: "digits n \<noteq> []"
  by (simp add: digits.simps[of n])

lemma digits_isDigit: "list_all isDigit (digits n)"
proof (induction n rule: digits.induct)
  case (1 n)
  show ?case
  proof (cases "n < 10")
    case True
    then show ?thesis by (simp add: digits.simps[of n] digit_table(1))
  next
    case False
    with 1 have "list_all isDigit (digits (n div 10))" by simp
    moreover have "isDigit (''0123456789'' ! (n mod 10))" by (rule digit_table(1)) simp
    ultimately show ?thesis using False by (simp add: digits.simps[of n])
  qed
qed

lemma decimalValue_snoc: "decimalValue (ds @ [c]) = 10 * decimalValue ds + digitValue c"
  by (simp add: decimalValue_def)

lemma digits_value: "decimalValue (digits n) = n"
proof (induction n rule: digits.induct)
  case (1 n)
  show ?case
  proof (cases "n < 10")
    case True
    then show ?thesis by (simp add: digits.simps[of n] decimalValue_def digit_table(2))
  next
    case False
    with 1 have "decimalValue (digits (n div 10)) = n div 10" by simp
    moreover have "digitValue (''0123456789'' ! (n mod 10)) = n mod 10" by (rule digit_table(2)) simp
    ultimately show ?thesis using False by (simp add: digits.simps[of n] decimalValue_snoc)
  qed
qed

lemma digits_leading: "n \<noteq> 0 \<Longrightarrow> hd (digits n) \<noteq> CHR ''0''"
proof (induction n rule: digits.induct)
  case (1 n)
  show ?case
  proof (cases "n < 10")
    case True
    from digit_table(3)[OF True] 1(2) have "''0123456789'' ! n \<noteq> CHR ''0''" by blast
    moreover have "hd (digits n) = ''0123456789'' ! n" using True by (subst digits.simps) simp
    ultimately show ?thesis by metis
  next
    case False
    then have "n div 10 \<noteq> 0" by simp
    with 1(1) False have "hd (digits (n div 10)) \<noteq> CHR ''0''" by simp
    then show ?thesis using False by (simp add: digits.simps[of n] digits_nonempty)
  qed
qed

lemma digits_canonical: "canonicalDecimal (digits n) n"
proof -
  have "hd (digits n) = CHR ''0'' \<longrightarrow> digits n = ''0''"
  proof (cases "n = 0")
    case True
    then show ?thesis by (simp add: digits.simps[of 0])
  next
    case False
    then show ?thesis by (simp add: digits_leading)
  qed
  then show ?thesis
    by (simp add: canonicalDecimal_def digits_nonempty digits_isDigit digits_value)
qed

lemma sprintf_d_decimal: "isDecimalOf (sprintf_d k) k"
  by (simp add: isDecimalOf_def sprintf_d_def digits_canonical)

lemma outputName_decimal: "\<exists>ds. outputName k = ''Output'' @ ds @ ''.bmp'' \<and> isDecimalOf ds k"
  unfolding outputName_def using sprintf_d_decimal by blast

lemma outputName_200: "outputName 200 = ''Output200.bmp''"
  by (simp add: outputName_def sprintf_d_def digits.simps[of 200] digits.simps[of 20] digits.simps[of 2])

lemma outputName_9800: "outputName 9800 = ''Output9800.bmp''"
  by (simp add: outputName_def sprintf_d_def digits.simps[of 9800] digits.simps[of 980] digits.simps[of 98]
      digits.simps[of 9])

lemma decimal_9800: "isDecimalOf ''9800'' 9800"
  by (simp add: isDecimalOf_def canonicalDecimal_def decimalValue_def isDigit_def digitValue_def)

lemma digit_char:
  assumes "isDigit c"
  shows "''0123456789'' ! digitValue c = c" and "digitValue c < 10"
proof -
  have t: "(48 :: nat) = of_char CHR ''0''" "(49 :: nat) = of_char CHR ''1''" "(50 :: nat) = of_char CHR ''2''"
    "(51 :: nat) = of_char CHR ''3''" "(52 :: nat) = of_char CHR ''4''" "(53 :: nat) = of_char CHR ''5''"
    "(54 :: nat) = of_char CHR ''6''" "(55 :: nat) = of_char CHR ''7''" "(56 :: nat) = of_char CHR ''8''"
    "(57 :: nat) = of_char CHR ''9''"
    by simp_all
  from assms have "48 \<le> (of_char c :: nat) \<and> (of_char c :: nat) \<le> 57"
    by (simp add: isDigit_def)
  then have "(of_char c :: nat) = 48 \<or> (of_char c :: nat) = 49 \<or> (of_char c :: nat) = 50 \<or>
             (of_char c :: nat) = 51 \<or> (of_char c :: nat) = 52 \<or> (of_char c :: nat) = 53 \<or>
             (of_char c :: nat) = 54 \<or> (of_char c :: nat) = 55 \<or> (of_char c :: nat) = 56 \<or>
             (of_char c :: nat) = 57"
    by arith
  then have "c = CHR ''0'' \<or> c = CHR ''1'' \<or> c = CHR ''2'' \<or> c = CHR ''3'' \<or> c = CHR ''4'' \<or>
             c = CHR ''5'' \<or> c = CHR ''6'' \<or> c = CHR ''7'' \<or> c = CHR ''8'' \<or> c = CHR ''9''"
    unfolding t of_char_eq_iff .
  then show "''0123456789'' ! digitValue c = c" and "digitValue c < 10"
    by (auto simp: digitValue_def)
qed

lemma decimalValue_positive:
  "ds \<noteq> [] \<Longrightarrow> list_all isDigit ds \<Longrightarrow> hd ds \<noteq> CHR ''0'' \<Longrightarrow> 0 < decimalValue ds"
proof (induction ds rule: rev_induct)
  case Nil
  then show ?case by simp
next
  case (snoc c ds)
  show ?case
  proof (cases "ds = []")
    case True
    from snoc.prems have "isDigit c" "c \<noteq> CHR ''0''" using True by simp_all
    with digit_char[of c] digit_table(3)[of "digitValue c"] have "digitValue c \<noteq> 0" by metis
    with True show ?thesis by (simp add: decimalValue_def)
  next
    case False
    with snoc have "0 < decimalValue ds" by simp
    then show ?thesis by (simp add: decimalValue_snoc)
  qed
qed

lemma canonicalDecimal_unique: "canonicalDecimal ds n \<Longrightarrow> ds = digits n"
proof (induction ds arbitrary: n rule: rev_induct)
  case Nil
  then show ?case by (simp add: canonicalDecimal_def)
next
  case (snoc c ds)
  from snoc.prems have c: "isDigit c" and all: "list_all isDigit ds"
    and n: "n = 10 * decimalValue ds + digitValue c"
    by (simp_all add: canonicalDecimal_def decimalValue_snoc)
  note d = digit_char[OF c]
  show ?case
  proof (cases "ds = []")
    case True
    with n d show ?thesis by (simp add: digits.simps[of "digitValue c"] decimalValue_def)
  next
    case False
    with snoc.prems have h: "hd ds \<noteq> CHR ''0''" by (auto simp: canonicalDecimal_def)
    with False all have "canonicalDecimal ds (decimalValue ds)" by (simp add: canonicalDecimal_def)
    then have ih: "ds = digits (decimalValue ds)" by (rule snoc.IH)
    from decimalValue_positive[OF False all h] n d(2)
    have "\<not> n < 10" "n div 10 = decimalValue ds" "n mod 10 = digitValue c" by simp_all
    then show ?thesis using ih d(1) by (simp add: digits.simps[of n])
  qed
qed

lemma isDecimalOf_unique: "isDecimalOf str k \<Longrightarrow> str = sprintf_d k"
proof (cases "k < 0")
  case True
  assume "isDecimalOf str k"
  with True have "str \<noteq> []" "hd str = CHR ''-''" "tl str = digits (nat (- k))"
    by (simp_all add: isDecimalOf_def canonicalDecimal_unique)
  then have "str = CHR ''-'' # digits (nat (- k))" by (cases str) simp_all
  with True show ?thesis by (simp add: sprintf_d_def)
next
  case False
  assume "isDecimalOf str k"
  with False show ?thesis by (simp add: isDecimalOf_def sprintf_d_def canonicalDecimal_unique)
qed

lemma outputName_unique: "isDecimalOf ds k \<Longrightarrow> outputName k = ''Output'' @ ds @ ''.bmp''"
  using isDecimalOf_unique[of ds k] by (simp add: outputName_def)

lemma outputName_final: "outputName ITERATIONS = ''Output10000.bmp''"
  by (simp add: outputName_def sprintf_d_def ITERATIONS_def digits.simps[of 10000] digits.simps[of 1000]
      digits.simps[of 100] digits.simps[of 10] digits.simps[of 1] digits.simps[of "Suc 0"])

text \<open>
  C8: with both allocations succeeding, after \<open>n\<close> iterations of the driver loop the
  two buffers are \<open>buffers F i2 n\<close>: generation \<open>n\<close> is in \<open>currentGrid\<close> when \<open>n\<close> is even
  and in \<open>newGrid\<close> when it is odd, the other buffer holding generation \<open>n - 1\<close>
  (ping-pong), and the events so far are the snapshots of the captured iterations
  below \<open>n\<close>. The whole run loads \<^verbatim>\<open>blank.bmp\<close> and then produces, in order, one
  snapshot for every iteration in \<open>0, 200, ..., 9800\<close> and a final one numbered
  \<open>ITERATIONS\<close>; snapshot \<open>k\<close> is the rendering of generation \<open>k\<close>, the seeded grid
  advanced \<open>k\<close> times, followed by \<open>SaveBMPFile\<close> of \<open>Output\<close>, the decimal \<open>k\<close> and
  \<open>.bmp\<close>: the name of snapshot \<open>k\<close> is \<open>Output\<close>, a string \<open>ds\<close> and \<open>.bmp\<close> where \<open>ds\<close> is
  the decimal numeral of \<open>k\<close> in the sense of \<open>isDecimalOf\<close>, and no other string is; so
  the names are \<open>Output0.bmp\<close>, \<open>Output200.bmp\<close>, ..., \<open>Output9800.bmp\<close> and
  \<open>Output10000.bmp\<close>. The run returns whenever the byte cast is total, and its only
  possible error is that cast.
\<close>

theorem startSimulation_snapshots:
  "(\<forall>n tr. simulationLoop F (Addr (length (heap s0))) (Addr (Suc (length (heap s0)))) (int n)
              \<lparr>heap = heap s0 @ buffers F i2 0, trace = tr\<rparr> =
            (case collect (\<lambda>k. snapshot F (generation F (nat k)) k) (captures (int n)) of
               Inl e \<Rightarrow> Inl e
             | Inr evs \<Rightarrow> Inr \<lparr>heap = heap s0 @ buffers F i2 n, trace = tr @ evs\<rparr>)) \<and>
   startSimulation F (Some i1) (Some i2) s0 =
     (case collect (\<lambda>k. snapshot F (generation F (nat k)) k) (captures ITERATIONS @ [ITERATIONS]) of
        Inl e \<Rightarrow> Inl e
      | Inr evs \<Rightarrow>
          Inr \<lparr>heap = heap s0 @ [generation F (nat ITERATIONS), generation F (nat ITERATIONS - 1)],
               trace = trace s0 @ LoadBMPFile ''blank.bmp'' # evs\<rparr>) \<and>
   (castTotal F \<longrightarrow> (\<exists>s'. startSimulation F (Some i1) (Some i2) s0 = Inr s')) \<and>
   (\<forall>e. startSimulation F (Some i1) (Some i2) s0 = Inl e \<longrightarrow> e = CastOutOfRange) \<and>
   captures ITERATIONS = map (\<lambda>j. 200 * j) [0..49] \<and>
   outputName ITERATIONS = ''Output10000.bmp'' \<and>
   (\<forall>k. \<exists>ds. outputName k = ''Output'' @ ds @ ''.bmp'' \<and> isDecimalOf ds k) \<and>
   (\<forall>k ds. isDecimalOf ds k \<longrightarrow> outputName k = ''Output'' @ ds @ ''.bmp'') \<and>
   outputName 0 = ''Output0.bmp'' \<and> outputName 200 = ''Output200.bmp'' \<and>
   outputName 9800 = ''Output9800.bmp''"
proof (intro conjI allI impI)
  fix n tr
  show "simulationLoop F (Addr (length (heap s0))) (Addr (Suc (length (heap s0)))) (int n)
              \<lparr>heap = heap s0 @ buffers F i2 0, trace = tr\<rparr> =
            (case collect (\<lambda>k. snapshot F (generation F (nat k)) k) (captures (int n)) of
               Inl e \<Rightarrow> Inl e
             | Inr evs \<Rightarrow> Inr \<lparr>heap = heap s0 @ buffers F i2 n, trace = tr @ evs\<rparr>)"
    by (rule simulationLoop_run)
next
  show "startSimulation F (Some i1) (Some i2) s0 =
     (case collect (\<lambda>k. snapshot F (generation F (nat k)) k) (captures ITERATIONS @ [ITERATIONS]) of
        Inl e \<Rightarrow> Inl e
      | Inr evs \<Rightarrow>
          Inr \<lparr>heap = heap s0 @ [generation F (nat ITERATIONS), generation F (nat ITERATIONS - 1)],
               trace = trace s0 @ LoadBMPFile ''blank.bmp'' # evs\<rparr>)"
    by (rule startSimulation_run)
next
  assume "castTotal F"
  from snapshots_total[OF this, of "captures ITERATIONS @ [ITERATIONS]"]
  show "\<exists>s'. startSimulation F (Some i1) (Some i2) s0 = Inr s'"
    by (auto simp: startSimulation_run)
next
  fix e assume "startSimulation F (Some i1) (Some i2) s0 = Inl e"
  then show "e = CastOutOfRange"
    using snapshots_error[of F "captures ITERATIONS @ [ITERATIONS]"]
    by (auto simp: startSimulation_run split: sum.splits)
next
  show "captures ITERATIONS = map (\<lambda>j. 200 * j) [0..49]" by (rule captures_explicit)
  show "outputName ITERATIONS = ''Output10000.bmp''" by (rule outputName_final)
  show "outputName 0 = ''Output0.bmp''" by (rule outputName_0)
  show "outputName 200 = ''Output200.bmp''" by (rule outputName_200)
  show "outputName 9800 = ''Output9800.bmp''" by (rule outputName_9800)
next
  fix k show "\<exists>ds. outputName k = ''Output'' @ ds @ ''.bmp'' \<and> isDecimalOf ds k"
    by (rule outputName_decimal)
next
  fix k ds assume "isDecimalOf ds k"
  then show "outputName k = ''Output'' @ ds @ ''.bmp''" by (rule outputName_unique)
qed

theorem startSimulation_snapshots_witness:
  "castTotal binary32_wrap \<and>
   (\<exists>s'. startSimulation binary32_wrap (Some zeroCells)
            (Some zeroCells) emptyState = Inr s' \<and>
          heap s' = [generation binary32_wrap 10000, generation binary32_wrap 9999]) \<and>
   isDecimalOf ''9800'' 9800 \<and> outputName 9800 = ''Output'' @ ''9800'' @ ''.bmp''"
proof -
  have t: "castTotal binary32_wrap" by (rule castTotal_wrap)
  note th = startSimulation_snapshots[of binary32_wrap emptyState zeroCells zeroCells]
  from th t obtain s' where s': "startSimulation binary32_wrap (Some zeroCells)
            (Some zeroCells) emptyState = Inr s'"
    by blast
  from th have r: "startSimulation binary32_wrap (Some zeroCells) (Some zeroCells) emptyState =
     (case collect (\<lambda>k. snapshot binary32_wrap (generation binary32_wrap (nat k)) k)
             (captures ITERATIONS @ [ITERATIONS]) of
        Inl e \<Rightarrow> Inl e
      | Inr evs \<Rightarrow>
          Inr \<lparr>heap = heap emptyState @ [generation binary32_wrap (nat ITERATIONS),
                                          generation binary32_wrap (nat ITERATIONS - 1)],
               trace = trace emptyState @ LoadBMPFile ''blank.bmp'' # evs\<rparr>)"
    by blast
  from r s' have h: "heap s' = [generation binary32_wrap 10000, generation binary32_wrap 9999]"
    by (auto simp: emptyState_def ITERATIONS_def split: sum.splits)
  from th have "\<forall>k ds. isDecimalOf ds k \<longrightarrow> outputName k = ''Output'' @ ds @ ''.bmp''"
    by blast
  with decimal_9800 have "outputName 9800 = ''Output'' @ ''9800'' @ ''.bmp''" by blast
  with s' t h decimal_9800 show ?thesis by blast
qed

end
